theory Spec2Isabelle
  imports Main "HOL-Library.AList"
begin

section \<open>Python strings\<close>

text \<open>
  The student database of \<^verbatim>\<open>main.py\<close> works on Python strings. They are modelled as
  \<^typ>\<open>string\<close> restricted to ASCII: \<^verbatim>\<open>str.upper\<close>, \<^verbatim>\<open>str.lower\<close> and
  \<^verbatim>\<open>str.strip\<close> are given by their action on the ASCII range, where they map character
  by character. The whitespace of \<^verbatim>\<open>str.strip\<close> in that range is the tab group
  \<open>0x09..0x0D\<close>, the separators \<open>0x1C..0x1F\<close> and the blank \<open>0x20\<close>.
\<close>

definition is_space :: "char \<Rightarrow> bool" where
  "is_space c = (let n = (of_char c :: nat) in (9 \<le> n \<and> n \<le> 13) \<or> (28 \<le> n \<and> n \<le> 32))"

definition upper_char :: "char \<Rightarrow> char" where
  "upper_char c = (let n = (of_char c :: nat) in if 97 \<le> n \<and> n \<le> 122 then char_of (n - 32) else c)"

definition lower_char :: "char \<Rightarrow> char" where
  "lower_char c = (let n = (of_char c :: nat) in if 65 \<le> n \<and> n \<le> 90 then char_of (n + 32) else c)"

definition upper :: "string \<Rightarrow> string" where
  "upper s = map upper_char s"

definition lower :: "string \<Rightarrow> string" where
  "lower s = map lower_char s"

definition strip :: "string \<Rightarrow> string" where
  "strip s = rev (dropWhile is_space (rev (dropWhile is_space s)))"

text \<open>\<^verbatim>\<open>str(n)\<close> for an integer: the decimal digits, with a minus sign below zero.\<close>

definition digit_char :: "nat \<Rightarrow> char" where
  "digit_char d = char_of (48 + d)"

fun digits :: "nat \<Rightarrow> string" where
  "digits n = (if n < 10 then [digit_char n] else digits (n div 10) @ [digit_char (n mod 10)])"

declare digits.simps [simp del]

definition py_str :: "int \<Rightarrow> string" where
  "py_str i = (if i < 0 then CHR ''-'' # digits (nat (- i)) else digits (nat i))"

text \<open>\<^verbatim>\<open>int(s)\<close> on the strings that \<^verbatim>\<open>str\<close> produces: an optional sign and decimal digits.\<close>

definition digits_val :: "string \<Rightarrow> nat" where
  "digits_val s = foldl (\<lambda>a c. 10 * a + ((of_char c :: nat) - 48)) 0 s"

definition py_int :: "string \<Rightarrow> int" where
  "py_int s = (case s of
       [] \<Rightarrow> 0
     | c # cs \<Rightarrow> if c = CHR ''-'' then - int (digits_val cs) else int (digits_val s))"

text \<open>The format specification \<^verbatim>\<open>{current:02d}\<close>: pad with a zero to two characters.\<close>

definition format_02d :: "int \<Rightarrow> string" where
  "format_02d n = (let t = py_str n in if length t < 2 then CHR ''0'' # t else t)"

section \<open>Constants and errors\<close>

definition COLLEGE_DOMAIN :: string where
  "COLLEGE_DOMAIN = ''college.edu''"

definition MAX_PER_DIVISION :: int where
  "MAX_PER_DIVISION = 70"

definition DIVISIONS :: "string list" where
  "DIVISIONS = [''1'', ''2'', ''3'']"

text \<open>
  The exceptions the code raises, as values. \<^verbatim>\<open>ValueError\<close> carries its message, which
  is how the code tells an empty field, a taken username, a full branch and an unknown
  student apart; the three \<^verbatim>\<open>sqlite3\<close> exceptions are a violated \<^verbatim>\<open>UNIQUE\<close> or
  \<^verbatim>\<open>PRIMARY KEY\<close> constraint, a statement that does not compile, and a parameter of a
  type that cannot be bound.
\<close>

datatype error =
    ValueError string
  | PermissionError string
  | AttributeError
  | IntegrityError
  | OperationalError
  | InterfaceError

section \<open>Utilities\<close>

definition validate_nonempty :: "string \<Rightarrow> string \<Rightarrow> error + string" where
  "validate_nonempty s name =
     (if s = [] \<or> strip s = [] then Inl (ValueError (name @ '' cannot be empty.''))
      else Inr (strip s))"

definition branch_code :: "string \<Rightarrow> string" where
  "branch_code branch =
     (let b = upper (strip branch);
          code = upper (take 2 b)
      in if length code < 2 then take 2 (code @ ''X'') else code)"

definition generate_email :: "string \<Rightarrow> string \<Rightarrow> string \<Rightarrow> string \<Rightarrow> string" where
  "generate_email fn ln p b =
     (let uname = lower fn @ ''.'' @ lower ln @ ''.'' @ p
      in uname @ ''@'' @ lower b @ ''.'' @ COLLEGE_DOMAIN)"

section \<open>Records and the store\<close>

text \<open>
  A value of a Python dictionary of the code is a string or something else; the code only
  asks which (\<^verbatim>\<open>isinstance(v, str)\<close>) and whether it is empty (\<^verbatim>\<open>extra or {}\<close>), so
  every value that is not a string is represented by a dictionary of strings.
\<close>

datatype pyval = PStr string | PDict "(string \<times> string) list"

fun truthy :: "pyval \<Rightarrow> bool" where
  "truthy (PStr t) = (t \<noteq> [])"
| "truthy (PDict d) = (d \<noteq> [])"

text \<open>
  A row of the table \<^verbatim>\<open>students\<close>, with the columns of \<^verbatim>\<open>_init_schema\<close>. The same record
  is the dictionary that \<^verbatim>\<open>register_student\<close> assembles; there \<open>extra\<close> is still the
  caller's value, while a stored row holds its JSON text.
\<close>

record student =
  prn :: string
  class_roll :: string
  username :: string
  salt :: string
  pw_hash :: string
  first_name :: string
  last_name :: string
  branch :: string
  division :: string
  email :: string
  extra :: pyval

text \<open>
  The database: the rows of \<^verbatim>\<open>students\<close> in insertion order and the value of the
  \<^verbatim>\<open>meta\<close> key \<^verbatim>\<open>next_prn\<close>. The key is stored as the text \<^verbatim>\<open>str(v)\<close> and read back
  with \<^verbatim>\<open>int\<close>; the model keeps the integer. Every storage method commits before it
  returns, so a later exception does not undo it: each operation returns the store it
  leaves behind, also when it fails.
\<close>

record store =
  students :: "student list"
  next_prn :: int

text \<open>
  The two library functions the code calls and this development does not interpret:
  \<^verbatim>\<open>hashlib.sha256(...).hexdigest()\<close> and \<^verbatim>\<open>json.dumps\<close>. The random
  \<^verbatim>\<open>uuid.uuid4().hex\<close> of a call is an argument of the operation that draws it.
\<close>

record env =
  sha256_hexdigest :: "string \<Rightarrow> string"
  json_dumps :: "pyval \<Rightarrow> string"

definition hash_password :: "env \<Rightarrow> string \<Rightarrow> string \<Rightarrow> string option \<Rightarrow> string \<times> string" where
  "hash_password E uuid password salt0 =
     (let sl = (case salt0 of None \<Rightarrow> uuid | Some x \<Rightarrow> x);
          h = sha256_hexdigest E (sl @ password)
      in (sl, h))"

subsection \<open>Storage\<close>

definition init_store :: store where
  "init_store = \<lparr>students = [], next_prn = 1001\<rparr>"

definition get_next_prn :: "store \<Rightarrow> string \<times> store" where
  "get_next_prn s = (let v = next_prn s in (py_str v, s\<lparr>next_prn := v + 1\<rparr>))"

text \<open>
  \<^verbatim>\<open>INSERT INTO students\<close>: \<open>prn\<close> is the primary key, \<open>class_roll\<close> and \<open>username\<close>
  are \<^verbatim>\<open>UNIQUE\<close>; a row that repeats one of them raises \<^verbatim>\<open>sqlite3.IntegrityError\<close>
  and the table stays as it was.
\<close>

definition insert_student :: "env \<Rightarrow> student \<Rightarrow> store \<Rightarrow> (error + unit) \<times> store" where
  "insert_student E st s =
     (if prn st \<in> set (map prn (students s))
         \<or> class_roll st \<in> set (map class_roll (students s))
         \<or> username st \<in> set (map username (students s))
      then (Inl IntegrityError, s)
      else (Inr (), s\<lparr>students := students s @ [st\<lparr>extra := PStr (json_dumps E (extra st))\<rparr>]\<rparr>))"

definition COLUMNS :: "string list" where
  "COLUMNS = [''prn'', ''class_roll'', ''username'', ''salt'', ''pw_hash'', ''first_name'',
              ''last_name'', ''branch'', ''division'', ''email'', ''extra'']"

fun bind_param :: "pyval \<Rightarrow> string option" where
  "bind_param (PStr t) = Some t"
| "bind_param (PDict d) = None"

text \<open>
  The assignments \<^verbatim>\<open>SET k1 = ?, k2 = ?, ...\<close> of an \<^verbatim>\<open>UPDATE\<close>, applied to one row:
  a column named in the list takes its bound value, every other column keeps its own.
  Where a column is named more than once SQLite takes the rightmost assignment.
\<close>

definition new_value :: "(string \<times> pyval) list \<Rightarrow> string \<Rightarrow> string \<Rightarrow> string" where
  "new_value sets k old =
     (case map_of (rev sets) k of
        None \<Rightarrow> old
      | Some v \<Rightarrow> (case bind_param v of Some t \<Rightarrow> t | None \<Rightarrow> old))"

definition assign_columns :: "(string \<times> pyval) list \<Rightarrow> student \<Rightarrow> student" where
  "assign_columns sets r =
     \<lparr>prn = new_value sets ''prn'' (prn r),
      class_roll = new_value sets ''class_roll'' (class_roll r),
      username = new_value sets ''username'' (username r),
      salt = new_value sets ''salt'' (salt r),
      pw_hash = new_value sets ''pw_hash'' (pw_hash r),
      first_name = new_value sets ''first_name'' (first_name r),
      last_name = new_value sets ''last_name'' (last_name r),
      branch = new_value sets ''branch'' (branch r),
      division = new_value sets ''division'' (division r),
      email = new_value sets ''email'' (email r),
      extra = (case map_of (rev sets) ''extra'' of
                 None \<Rightarrow> extra r
               | Some v \<Rightarrow> (case bind_param v of Some t \<Rightarrow> PStr t | None \<Rightarrow> extra r))\<rparr>"

text \<open>
  \<^verbatim>\<open>cur.execute("UPDATE students SET k1 = ?, ... WHERE prn = ?", values)\<close>. With no
  assignment the statement reads \<^verbatim>\<open>UPDATE students SET  WHERE prn = ?\<close>, which SQLite
  rejects, as it rejects a name that is no column (\<^verbatim>\<open>sqlite3.OperationalError\<close>); a
  value that is not text cannot be bound; an update that would break a uniqueness
  constraint raises \<^verbatim>\<open>sqlite3.IntegrityError\<close>. In each of these cases no row changes.
\<close>

definition execute_update :: "(string \<times> pyval) list \<Rightarrow> string \<Rightarrow> store \<Rightarrow> (error + unit) \<times> store" where
  "execute_update sets p s =
     (if sets = [] \<or> (\<exists>k \<in> set (map fst sets). k \<notin> set COLUMNS) then (Inl OperationalError, s)
      else if (\<exists>v \<in> set (map snd sets). bind_param v = None) then (Inl InterfaceError, s)
      else let rows = map (\<lambda>r. if prn r = p then assign_columns sets r else r) (students s)
           in if distinct (map prn rows) \<and> distinct (map class_roll rows) \<and> distinct (map username rows)
              then (Inr (), s\<lparr>students := rows\<rparr>)
              else (Inl IntegrityError, s))"

definition update_student :: "env \<Rightarrow> string \<Rightarrow> (string \<times> pyval) list \<Rightarrow> store \<Rightarrow> (error + unit) \<times> store" where
  "update_student E p updates s =
     (let sets = map (\<lambda>(k, v). (k, if k = ''extra'' then PStr (json_dumps E v) else v)) updates
      in execute_update sets p s)"

definition storage_delete_student :: "string \<Rightarrow> store \<Rightarrow> store" where
  "storage_delete_student p s = s\<lparr>students := filter (\<lambda>r. prn r \<noteq> p) (students s)\<rparr>"

definition find_student_by_prn :: "store \<Rightarrow> string \<Rightarrow> student option" where
  "find_student_by_prn s p = find (\<lambda>r. prn r = p) (students s)"

definition find_student_by_username :: "store \<Rightarrow> string \<Rightarrow> student option" where
  "find_student_by_username s u = find (\<lambda>r. username r = u) (students s)"

text \<open>
  \<^verbatim>\<open>count_by_branch_division\<close>: a dictionary with 0 for each of \<^verbatim>\<open>DIVISIONS\<close>, then one
  entry per group of \<^verbatim>\<open>SELECT division, COUNT(*) ... WHERE branch = ? GROUP BY division\<close>,
  asked for the upper-cased branch. \<open>dict_get\<close> is \<^verbatim>\<open>dict.get(key, default)\<close>.
\<close>

definition count_by_branch_division :: "store \<Rightarrow> string \<Rightarrow> (string \<times> int) list" where
  "count_by_branch_division s b =
     (let res = map (\<lambda>d. (d, 0)) DIVISIONS;
          rows = filter (\<lambda>r. branch r = upper b) (students s);
          groups = map (\<lambda>d. (d, int (length (filter (\<lambda>r. division r = d) rows))))
                       (remdups (map division rows))
      in fold (\<lambda>(d, c) acc. AList.update d c acc) groups res)"

definition dict_get :: "(string \<times> int) list \<Rightarrow> string \<Rightarrow> int \<Rightarrow> int" where
  "dict_get counts d dflt = (case map_of counts d of Some c \<Rightarrow> c | None \<Rightarrow> dflt)"

subsection \<open>StudentDB\<close>

fun assign_division_loop :: "(string \<times> int) list \<Rightarrow> string list \<Rightarrow> error + string" where
  "assign_division_loop counts [] =
     Inl (ValueError ''All divisions for this branch are full (3x70 = 210 students).'')"
| "assign_division_loop counts (d # ds) =
     (if dict_get counts d 0 < MAX_PER_DIVISION then Inr d else assign_division_loop counts ds)"

definition assign_division :: "store \<Rightarrow> string \<Rightarrow> error + string" where
  "assign_division s b = assign_division_loop (count_by_branch_division s b) DIVISIONS"

definition generate_class_roll :: "store \<Rightarrow> string \<Rightarrow> string \<Rightarrow> error + string" where
  "generate_class_roll s b d =
     (let counts = count_by_branch_division s b;
          current = dict_get counts d 0 + 1
      in if current > MAX_PER_DIVISION
         then Inl (ValueError (''Division '' @ d @ '' in '' @ b @ '' already full.''))
         else Inr (branch_code b @ d @ format_02d current))"

definition register_student ::
  "env \<Rightarrow> string \<Rightarrow> string \<Rightarrow> string \<Rightarrow> string \<Rightarrow> string \<Rightarrow> string \<Rightarrow> pyval option \<Rightarrow> store
     \<Rightarrow> (error + student) \<times> store" where
  "register_student E uuid uname password fn ln b ex s =
     (case validate_nonempty uname ''username'' of
        Inl e \<Rightarrow> (Inl e, s)
      | Inr u0 \<Rightarrow>
          let u = lower u0 in
          if find_student_by_username s u \<noteq> None
          then (Inl (ValueError ''Username already exists for a student.''), s)
          else
            let (p, s1) = get_next_prn s;
                (sl, h) = hash_password E uuid password None
            in case assign_division s1 b of
                 Inl e \<Rightarrow> (Inl e, s1)
               | Inr d \<Rightarrow>
                  (case generate_class_roll s1 b d of
                     Inl e \<Rightarrow> (Inl e, s1)
                   | Inr roll \<Rightarrow>
                       let em = generate_email fn ln p b;
                           st = \<lparr>prn = p, class_roll = roll, username = u, salt = sl, pw_hash = h,
                                 first_name = strip fn, last_name = strip ln,
                                 branch = upper (strip b), division = d, email = em,
                                 extra = (case ex of None \<Rightarrow> PDict []
                                          | Some v \<Rightarrow> if truthy v then v else PDict [])\<rparr>
                       in case insert_student E st s1 of
                            (Inl e, s2) \<Rightarrow> (Inl e, s2)
                          | (Inr _, s2) \<Rightarrow> (Inr st, s2)))"

text \<open>
  The permission test of \<^verbatim>\<open>edit_student\<close> and \<^verbatim>\<open>delete_student\<close>:
  \<^verbatim>\<open>editor_branch and s["branch"].upper() != editor_branch.upper()\<close>. Python's
  \<^verbatim>\<open>and\<close> takes \<^verbatim>\<open>None\<close> and the empty string as false.
\<close>

definition branch_mismatch :: "string option \<Rightarrow> student \<Rightarrow> bool" where
  "branch_mismatch editor_branch r =
     (case editor_branch of None \<Rightarrow> False
      | Some eb \<Rightarrow> eb \<noteq> [] \<and> upper (branch r) \<noteq> upper eb)"

definition allowed :: "string list" where
  "allowed = [''first_name'', ''last_name'', ''email'', ''extra'', ''branch'']"

text \<open>
  The loop \<^verbatim>\<open>for k, v in updates.items(): if k not in allowed: continue; applied[k] = v\<close>.
  A dictionary is the list of its items in insertion order; assigning to a key keeps the
  key's place or appends it, which is \<^const>\<open>AList.update\<close>, so that \<open>applied\<close> has
  each key once.
\<close>

definition filter_allowed :: "(string \<times> pyval) list \<Rightarrow> (string \<times> pyval) list" where
  "filter_allowed updates =
     fold (\<lambda>(k, v) applied. if k \<notin> set allowed then applied else AList.update k v applied)
          updates []"

text \<open>
  The block \<^verbatim>\<open>if "branch" in applied\<close> of \<^verbatim>\<open>edit_student\<close>: a new division and class
  roll for the upper-cased new branch. \<^verbatim>\<open>.upper()\<close> on a value that is no string raises
  \<^verbatim>\<open>AttributeError\<close>.
\<close>

definition reassign_branch :: "store \<Rightarrow> (string \<times> pyval) list \<Rightarrow> error + (string \<times> pyval) list" where
  "reassign_branch s applied =
     (case map_of applied ''branch'' of
        None \<Rightarrow> Inr applied
      | Some (PDict x) \<Rightarrow> Inl AttributeError
      | Some (PStr nb) \<Rightarrow>
          let new_branch = upper nb in
          case assign_division s new_branch of
            Inl e \<Rightarrow> Inl e
          | Inr new_div \<Rightarrow>
             (case generate_class_roll s new_branch new_div of
                Inl e \<Rightarrow> Inl e
              | Inr new_roll \<Rightarrow>
                  Inr (AList.update ''class_roll'' (PStr new_roll)
                        (AList.update ''division'' (PStr new_div)
                          (AList.update ''branch'' (PStr new_branch) applied)))))"

definition encode_extra :: "env \<Rightarrow> (string \<times> pyval) list \<Rightarrow> (string \<times> pyval) list" where
  "encode_extra E applied =
     (case map_of applied ''extra'' of
        Some (PDict x) \<Rightarrow> AList.update ''extra'' (PStr (json_dumps E (PDict x))) applied
      | _ \<Rightarrow> applied)"

definition edit_student ::
  "env \<Rightarrow> string \<Rightarrow> (string \<times> pyval) list \<Rightarrow> string option \<Rightarrow> store
     \<Rightarrow> (error + student option) \<times> store" where
  "edit_student E p updates editor_branch s =
     (case find_student_by_prn s p of
        None \<Rightarrow> (Inl (ValueError ''Student not found.''), s)
      | Some r \<Rightarrow>
          if branch_mismatch editor_branch r
          then (Inl (PermissionError ''You can only edit students of your branch.''), s)
          else
            let applied = filter_allowed updates
            in case reassign_branch s applied of
                 Inl e \<Rightarrow> (Inl e, s)
               | Inr applied1 \<Rightarrow>
                  (case update_student E p (encode_extra E applied1) s of
                     (Inl e, s') \<Rightarrow> (Inl e, s')
                   | (Inr _, s') \<Rightarrow> (Inr (find_student_by_prn s' p), s')))"

definition delete_student :: "string \<Rightarrow> string option \<Rightarrow> store \<Rightarrow> (error + bool) \<times> store" where
  "delete_student p editor_branch s =
     (case find_student_by_prn s p of
        None \<Rightarrow> (Inl (ValueError ''Student not found.''), s)
      | Some r \<Rightarrow>
          if branch_mismatch editor_branch r
          then (Inl (PermissionError ''You can only delete students of your branch.''), s)
          else (Inr True, storage_delete_student p s))"

subsection \<open>The registration flow of the menu\<close>

text \<open>
  \<^verbatim>\<open>student_register_flow\<close> reads five lines, validates each with
  \<^verbatim>\<open>validate_nonempty\<close> and passes the stripped values on. It prints the exception
  it catches; the model returns it.
\<close>

definition student_register_flow ::
  "env \<Rightarrow> string \<Rightarrow> string \<Rightarrow> string \<Rightarrow> string \<Rightarrow> string \<Rightarrow> string \<Rightarrow> store
     \<Rightarrow> (error + student) \<times> store" where
  "student_register_flow E uuid in_uname in_pw in_fn in_ln in_branch s =
     (case validate_nonempty in_uname ''username'' of Inl e \<Rightarrow> (Inl e, s) | Inr uname \<Rightarrow>
      case validate_nonempty in_pw ''password'' of Inl e \<Rightarrow> (Inl e, s) | Inr pw \<Rightarrow>
      case validate_nonempty in_fn ''first name'' of Inl e \<Rightarrow> (Inl e, s) | Inr fn \<Rightarrow>
      case validate_nonempty in_ln ''last name'' of Inl e \<Rightarrow> (Inl e, s) | Inr ln \<Rightarrow>
      case validate_nonempty in_branch ''branch'' of Inl e \<Rightarrow> (Inl e, s) | Inr b \<Rightarrow>
        register_student E uuid uname pw fn ln b None s)"

subsection \<open>Sequences of calls\<close>

datatype call =
    Register string string string string string string "pyval option"
  | Edit string "(string \<times> pyval) list" "string option"
  | Delete string "string option"

fun exec :: "env \<Rightarrow> store \<Rightarrow> call \<Rightarrow> store" where
  "exec E s (Register uuid uname password fn ln b ex) =
     snd (register_student E uuid uname password fn ln b ex s)"
| "exec E s (Edit p updates editor_branch) = snd (edit_student E p updates editor_branch s)"
| "exec E s (Delete p editor_branch) = snd (delete_student p editor_branch s)"

definition run :: "env \<Rightarrow> call list \<Rightarrow> store \<Rightarrow> store" where
  "run E calls s = foldl (exec E) s calls"

text \<open>The number of rows of a branch and division, as \<^verbatim>\<open>COUNT(*)\<close> gives it.\<close>

definition count_students :: "store \<Rightarrow> string \<Rightarrow> string \<Rightarrow> nat" where
  "count_students s b d = length (filter (\<lambda>r. branch r = b \<and> division r = d) (students s))"

subsection \<open>What every row of the table satisfies\<close>

text \<open>
  A class roll is the branch code, the division and a two-digit sequence number between
  1 and 70; a PRN is the decimal text of a number below the counter; the key columns
  are free of repetitions.
\<close>

definition roll_ok :: "student \<Rightarrow> bool" where
  "roll_ok r = (\<exists>k \<in> {1..70}. class_roll r = branch_code (branch r) @ division r @ format_02d k)"

definition prn_ok :: "int \<Rightarrow> student \<Rightarrow> bool" where
  "prn_ok v r = (prn r = py_str (py_int (prn r)) \<and> py_int (prn r) < v)"

definition store_inv :: "store \<Rightarrow> bool" where
  "store_inv s =
     (distinct (map prn (students s)) \<and> distinct (map class_roll (students s))
      \<and> distinct (map username (students s))
      \<and> (\<forall>r \<in> set (students s). roll_ok r \<and> prn_ok (next_prn s) r))"

subsection \<open>Sample stores\<close>

text \<open>
  Concrete inputs for the examples below: stand-ins for the two library functions, calls
  that register a student, and stores whose divisions are filled seat by seat, each row as
  a registration writes it.
\<close>

definition stub_env :: env where
  "stub_env = \<lparr>sha256_hexdigest = (\<lambda>x. x), json_dumps = (\<lambda>v. ''{}'')\<rparr>"

definition reg :: "string \<Rightarrow> string \<Rightarrow> call" where
  "reg u b = Register ''5f0c'' u ''pw'' ''Ann'' ''Lee'' b None"

definition ann_row :: student where
  "ann_row =
     \<lparr>prn = ''1001'', class_roll = ''CS101'', username = ''ann'', salt = ''5f0c'',
      pw_hash = ''5f0cpw'', first_name = ''Ann'', last_name = ''Lee'', branch = ''CS'',
      division = ''1'', email = ''ann.lee.1001@cs.college.edu'', extra = PStr ''{}''\<rparr>"

definition bob_row :: student where
  "bob_row =
     \<lparr>prn = ''1002'', class_roll = ''CS102'', username = ''bob'', salt = ''5f0c'',
      pw_hash = ''5f0cpw'', first_name = ''Ann'', last_name = ''Lee'', branch = ''CS'',
      division = ''1'', email = ''ann.lee.1002@cs.college.edu'', extra = PStr ''{}''\<rparr>"

definition cyd_row :: student where
  "cyd_row =
     \<lparr>prn = ''1003'', class_roll = ''CS103'', username = ''cyd'', salt = ''5f0c'',
      pw_hash = ''5f0cpw'', first_name = ''Ann'', last_name = ''Lee'', branch = ''CS'',
      division = ''1'', email = ''ann.lee.1003@cs.college.edu'', extra = PStr ''{}''\<rparr>"

text \<open>The store after three registrations into branch CS (see \<open>three_cs_run\<close>).\<close>

definition three_cs :: store where
  "three_cs = \<lparr>students = [ann_row, bob_row, cyd_row], next_prn = 1004\<rparr>"

definition seat :: "string \<Rightarrow> string \<Rightarrow> int \<Rightarrow> student" where
  "seat b d k =
     \<lparr>prn = py_str (1000 + 70 * (py_int d - 1) + k),
      class_roll = branch_code b @ d @ format_02d k,
      username = ''u'' @ d @ format_02d k,
      salt = ''5f0c'', pw_hash = ''5f0cpw'', first_name = ''Ann'', last_name = ''Lee'',
      branch = b, division = d,
      email = generate_email ''Ann'' ''Lee'' (py_str (1000 + 70 * (py_int d - 1) + k)) b,
      extra = PStr ''{}''\<rparr>"

definition block :: "string \<Rightarrow> string \<Rightarrow> int \<Rightarrow> student list" where
  "block b d n = map (seat b d) [1..n]"

definition packed_cs :: store where
  "packed_cs = \<lparr>students = block ''CS'' ''1'' 70 @ block ''CS'' ''2'' 70 @ block ''CS'' ''3'' 70,
                 next_prn = 1211\<rparr>"

definition nearly_full_cs :: store where
  "nearly_full_cs = \<lparr>students = block ''CS'' ''1'' 69, next_prn = 1070\<rparr>"

section \<open>Facts about the string functions\<close>

lemma upper_char_idem: "upper_char (upper_char c) = upper_char c"
  by (auto simp: upper_char_def Let_def)

lemma upper_idem: "upper (upper t) = upper t"
  by (simp add: upper_def upper_char_idem)

lemma is_space_upper_char: "is_space (upper_char c) = is_space c"
  by (auto simp: upper_char_def is_space_def Let_def)

lemma dropWhile_space_upper: "dropWhile is_space (upper t) = upper (dropWhile is_space t)"
  by (induction t) (auto simp: upper_def is_space_upper_char)

lemma strip_upper: "strip (upper t) = upper (strip t)"
proof -
  have "rev (upper t) = upper (rev t)" for t
    by (simp add: upper_def rev_map)
  then show ?thesis
    by (simp add: strip_def dropWhile_space_upper)
qed

lemma dropWhile_fixed: "t = [] \<or> \<not> P (hd t) \<Longrightarrow> dropWhile P t = t"
  by (cases t) auto

lemma rstrip_keeps_head:
  assumes "u = [] \<or> \<not> P (hd u)"
  shows "rev (dropWhile P (rev u)) = [] \<or> \<not> P (hd (rev (dropWhile P (rev u))))"
proof -
  let ?w = "rev (dropWhile P (rev u))"
  have "?w @ rev (takeWhile P (rev u)) = rev (takeWhile P (rev u) @ dropWhile P (rev u))"
    by (simp only: rev_append)
  also have "\<dots> = u"
    by (simp only: takeWhile_dropWhile_id rev_rev_ident)
  finally have u: "u = ?w @ rev (takeWhile P (rev u))" by simp
  show ?thesis
  proof (cases "?w = []")
    case True then show ?thesis by simp
  next
    case False
    then have "hd u = hd ?w" using u by (metis hd_append2)
    moreover have "u \<noteq> []" using False by auto
    ultimately show ?thesis using assms by simp
  qed
qed

lemma strip_idem: "strip (strip t) = strip t"
proof -
  let ?u = "dropWhile is_space t"
  let ?w = "rev (dropWhile is_space (rev ?u))"
  have "?u = [] \<or> \<not> is_space (hd ?u)"
    using hd_dropWhile [of is_space t] by blast
  then have "?w = [] \<or> \<not> is_space (hd ?w)"
    by (rule rstrip_keeps_head)
  then have a: "dropWhile is_space ?w = ?w"
    by (rule dropWhile_fixed)
  have b: "dropWhile is_space (rev ?w) = rev ?w"
    by simp
  have "strip ?w = ?w"
    unfolding strip_def [of ?w] a b by simp
  then show ?thesis by (simp add: strip_def)
qed

lemma of_char_digit: "d < 10 \<Longrightarrow> (of_char (digit_char d) :: nat) = 48 + d"
  by (simp add: digit_char_def)

lemma digits_val_snoc: "digits_val (t @ [c]) = 10 * digits_val t + ((of_char c :: nat) - 48)"
  by (simp add: digits_val_def)

lemma digits_val_digits: "digits_val (digits n) = n"
proof (induction n rule: digits.induct)
  case (1 n)
  show ?case
  proof (cases "n < 10")
    case True
    then show ?thesis
      by (subst digits.simps) (simp add: digits_val_def of_char_digit)
  next
    case False
    with 1 show ?thesis
      by (subst digits.simps) (simp add: digits_val_snoc of_char_digit)
  qed
qed

lemma digits_nonempty: "digits n \<noteq> []"
  by (subst digits.simps) simp

lemma digits_no_minus: "hd (digits n) \<noteq> CHR ''-''"
proof (induction n rule: digits.induct)
  case (1 n)
  show ?case
  proof (cases "n < 10")
    case True
    have "digit_char n \<noteq> CHR ''-''"
    proof
      assume "digit_char n = CHR ''-''"
      then have "(of_char (digit_char n) :: nat) = of_char CHR ''-''" by simp
      with True show False by (simp add: of_char_digit)
    qed
    with True show ?thesis by (subst digits.simps) simp
  next
    case False
    with 1 show ?thesis
      by (subst digits.simps) (simp add: digits_nonempty)
  qed
qed

lemma py_int_py_str: "py_int (py_str i) = i"
proof (cases "i < 0")
  case True
  then show ?thesis by (simp add: py_str_def py_int_def digits_val_digits)
next
  case False
  obtain c cs where d: "digits (nat i) = c # cs"
    using digits_nonempty [of "nat i"] by (cases "digits (nat i)") auto
  with digits_no_minus [of "nat i"] have "c \<noteq> CHR ''-''" by simp
  moreover have "digits_val (c # cs) = nat i"
    using digits_val_digits [of "nat i"] d by simp
  ultimately show ?thesis using False d by (simp add: py_str_def py_int_def)
qed

lemma py_str_inj: "py_str i = py_str j \<Longrightarrow> i = j"
  by (metis py_int_py_str)

lemma branch_code_upper: "branch_code (upper b) = branch_code b"
  by (simp add: branch_code_def strip_upper upper_idem)

lemma branch_code_upper_strip: "branch_code (upper (strip b)) = branch_code b"
  by (simp add: branch_code_def strip_upper upper_idem strip_idem)

lemma format_02d_inv: "0 \<le> n \<Longrightarrow> py_int (format_02d n) = n"
proof -
  assume n: "0 \<le> n"
  have "py_int (CHR ''0'' # py_str n) = n"
    using n digits_val_digits [of "nat n"]
    by (simp add: py_int_def py_str_def digits_val_def)
  then show ?thesis
    by (simp add: format_02d_def Let_def py_int_py_str)
qed

section \<open>Facts about the counts\<close>

lemma map_of_fold_update:
  "map_of (fold (\<lambda>(k, v) acc. AList.update k v acc) (map (\<lambda>d. (d, f d)) ks) acc) k =
     (if k \<in> set ks then Some (f k) else map_of acc k)"
  by (induction ks arbitrary: acc) (auto simp: update_conv')

lemma dict_get_count:
  "dict_get (count_by_branch_division s b) d 0 = int (count_students s (upper b) d)"
proof -
  let ?rows = "filter (\<lambda>r. branch r = upper b) (students s)"
  have z: "d \<notin> set (map division ?rows) \<Longrightarrow> filter (\<lambda>r. division r = d) ?rows = []"
    by (auto simp: filter_empty_conv)
  have c: "length (filter (\<lambda>r. division r = d) ?rows) = count_students s (upper b) d"
    by (simp add: count_students_def conj_commute)
  have r: "map_of (map (\<lambda>d. (d, 0::int)) DIVISIONS) d = None \<or> map_of (map (\<lambda>d. (d, 0::int)) DIVISIONS) d = Some 0"
    by (simp add: map_of_map_restrict restrict_map_def)
  show ?thesis
    using z c r
    by (auto simp: dict_get_def count_by_branch_division_def Let_def map_of_fold_update
             split: option.splits)
qed

lemma assign_division_loop_split:
  "assign_division_loop counts ds = Inr d \<longleftrightarrow>
     (\<exists>pre post. ds = pre @ d # post \<and> dict_get counts d 0 < MAX_PER_DIVISION
        \<and> (\<forall>e \<in> set pre. MAX_PER_DIVISION \<le> dict_get counts e 0))"
proof (induction ds)
  case Nil
  then show ?case by simp
next
  case (Cons x ds)
  show ?case
  proof (cases "dict_get counts x 0 < MAX_PER_DIVISION")
    case True
    then show ?thesis
      by (auto simp: Cons_eq_append_conv)
  next
    case False
    have "(\<exists>pre post. x # ds = pre @ d # post \<and> dict_get counts d 0 < MAX_PER_DIVISION
              \<and> (\<forall>e \<in> set pre. MAX_PER_DIVISION \<le> dict_get counts e 0))
        \<longleftrightarrow> (\<exists>pre post. ds = pre @ d # post \<and> dict_get counts d 0 < MAX_PER_DIVISION
              \<and> (\<forall>e \<in> set pre. MAX_PER_DIVISION \<le> dict_get counts e 0))"
      (is "?L \<longleftrightarrow> ?R")
    proof
      assume ?L
      then obtain pre post where h: "x # ds = pre @ d # post"
        "dict_get counts d 0 < MAX_PER_DIVISION"
        "\<forall>e \<in> set pre. MAX_PER_DIVISION \<le> dict_get counts e 0"
        by blast
      from h(1,2) False obtain pre' where "pre = x # pre'"
        by (cases pre) auto
      with h show ?R by auto
    next
      assume ?R
      then obtain pre post where h: "ds = pre @ d # post"
        "dict_get counts d 0 < MAX_PER_DIVISION"
        "\<forall>e \<in> set pre. MAX_PER_DIVISION \<le> dict_get counts e 0"
        by blast
      from h(1) have "x # ds = (x # pre) @ d # post" by simp
      moreover from h(3) False have "\<forall>e \<in> set (x # pre). MAX_PER_DIVISION \<le> dict_get counts e 0"
        by simp
      ultimately show ?L using h(2) by blast
    qed
    with False Cons.IH show ?thesis by simp
  qed
qed

lemma assign_division_loop_full:
  "assign_division_loop counts ds = Inl e \<longleftrightarrow>
     (e = ValueError ''All divisions for this branch are full (3x70 = 210 students).''
      \<and> (\<forall>d \<in> set ds. MAX_PER_DIVISION \<le> dict_get counts d 0))"
  by (induction ds) auto

lemma count_students_block:
  "count_students \<lparr>students = pre @ block b d n, next_prn = v\<rparr> b' d'
     = count_students \<lparr>students = pre, next_prn = v\<rparr> b' d'
       + (if b = b' \<and> d = d' then nat n else 0)"
  by (simp add: count_students_def block_def seat_def filter_map comp_def)

lemma count_students_empty: "count_students \<lparr>students = [], next_prn = v\<rparr> b d = 0"
  by (simp add: count_students_def)

lemma count_packed_cs:
  "count_students packed_cs ''CS'' ''1'' = 70"
  "count_students packed_cs ''CS'' ''2'' = 70"
  "count_students packed_cs ''CS'' ''3'' = 70"
  using count_students_block [of "[]" "''CS''" "''1''" 70]
        count_students_block [of "block ''CS'' ''1'' 70" "''CS''" "''2''" 70]
        count_students_block [of "block ''CS'' ''1'' 70 @ block ''CS'' ''2'' 70" "''CS''" "''3''" 70]
  by (simp_all add: packed_cs_def count_students_empty)

lemma count_nearly_full_cs:
  "count_students nearly_full_cs ''CS'' ''1'' = 69"
  "count_students nearly_full_cs ''CS'' ''2'' = 0"
  "count_students nearly_full_cs ''CS'' ''3'' = 0"
  using count_students_block [of "[]" "''CS''" "''1''" 69]
  by (simp_all add: nearly_full_cs_def count_students_empty)

lemma upper_CS: "upper ''CS'' = ''CS''"
  by code_simp

section \<open>Division assignment\<close>

text \<open>
  C4. \<^verbatim>\<open>_assign_division\<close> goes through the divisions 1, 2, 3 in this order and returns
  the first one that holds fewer than 70 students of the branch (the rows whose branch is
  the upper-cased argument): it returns \<open>d\<close> exactly when \<open>d\<close> is one of the three, is
  below capacity, and every division before it is at capacity. When division 1 holds 69
  students and the other two none, it returns division 1. When every division is at
  capacity it raises the \<^verbatim>\<open>ValueError\<close> that says all divisions are full, which is the
  capacity error of the specification.
\<close>

theorem assign_division_earliest:
  "(assign_division s b = Inr d \<longleftrightarrow>
      (\<exists>pre post. [''1'', ''2'', ''3''] = pre @ d # post
         \<and> int (count_students s (upper b) d) < 70
         \<and> (\<forall>e \<in> set pre. 70 \<le> int (count_students s (upper b) e))))
   \<and> (count_students s (upper b) ''1'' = 69 \<and> count_students s (upper b) ''2'' = 0
        \<and> count_students s (upper b) ''3'' = 0 \<longrightarrow> assign_division s b = Inr ''1'')
   \<and> ((\<forall>e \<in> set [''1'', ''2'', ''3'']. 70 \<le> int (count_students s (upper b) e)) \<longrightarrow>
        assign_division s b =
          Inl (ValueError ''All divisions for this branch are full (3x70 = 210 students).''))"
proof (intro conjI impI)
  show "assign_division s b = Inr d \<longleftrightarrow>
      (\<exists>pre post. [''1'', ''2'', ''3''] = pre @ d # post
         \<and> int (count_students s (upper b) d) < 70
         \<and> (\<forall>e \<in> set pre. 70 \<le> int (count_students s (upper b) e)))"
    using assign_division_loop_split [of "count_by_branch_division s b" DIVISIONS d]
    by (simp add: assign_division_def dict_get_count MAX_PER_DIVISION_def DIVISIONS_def)
next
  assume "count_students s (upper b) ''1'' = 69 \<and> count_students s (upper b) ''2'' = 0
        \<and> count_students s (upper b) ''3'' = 0"
  then show "assign_division s b = Inr ''1''"
    by (simp add: assign_division_def dict_get_count MAX_PER_DIVISION_def DIVISIONS_def)
next
  assume "\<forall>e \<in> set [''1'', ''2'', ''3'']. 70 \<le> int (count_students s (upper b) e)"
  then show "assign_division s b =
          Inl (ValueError ''All divisions for this branch are full (3x70 = 210 students).'')"
    by (simp add: assign_division_def dict_get_count MAX_PER_DIVISION_def DIVISIONS_def)
qed

theorem assign_division_earliest_witness:
  "assign_division nearly_full_cs ''CS'' = Inr ''1''
   \<and> assign_division packed_cs ''CS''
       = Inl (ValueError ''All divisions for this branch are full (3x70 = 210 students).'')
   \<and> (\<exists>pre post. [''1'', ''2'', ''3''] = pre @ ''1'' # post
         \<and> int (count_students nearly_full_cs (upper ''CS'') ''1'') < 70
         \<and> (\<forall>e \<in> set pre. 70 \<le> int (count_students nearly_full_cs (upper ''CS'') e)))"
proof -
  have a: "count_students nearly_full_cs (upper ''CS'') ''1'' = 69
        \<and> count_students nearly_full_cs (upper ''CS'') ''2'' = 0
        \<and> count_students nearly_full_cs (upper ''CS'') ''3'' = 0"
    by (simp add: upper_CS count_nearly_full_cs)
  have b: "\<forall>e \<in> set [''1'', ''2'', ''3'']. 70 \<le> int (count_students packed_cs (upper ''CS'') e)"
    by (simp add: upper_CS count_packed_cs)
  have c: "assign_division nearly_full_cs ''CS'' = Inr ''1''"
    using assign_division_earliest [of nearly_full_cs "''CS''" "''1''"] a by blast
  have d: "assign_division packed_cs ''CS''
       = Inl (ValueError ''All divisions for this branch are full (3x70 = 210 students).'')"
    using assign_division_earliest [of packed_cs "''CS''" "''1''"] b by blast
  from c d assign_division_earliest [of nearly_full_cs "''CS''" "''1''"] show ?thesis
    by blast
qed

section \<open>Facts about registration\<close>

lemma count_by_branch_division_next_prn:
  "count_by_branch_division (s\<lparr>next_prn := v\<rparr>) b = count_by_branch_division s b"
  by (simp add: count_by_branch_division_def)

lemma count_students_next_prn: "count_students (s\<lparr>next_prn := v\<rparr>) b d = count_students s b d"
  by (simp add: count_students_def)

lemma assign_division_next_prn: "assign_division (s\<lparr>next_prn := v\<rparr>) b = assign_division s b"
  by (simp add: assign_division_def count_by_branch_division_next_prn)

lemma generate_class_roll_next_prn:
  "generate_class_roll (s\<lparr>next_prn := v\<rparr>) b d = generate_class_roll s b d"
  by (simp add: generate_class_roll_def count_by_branch_division_next_prn)

lemma assign_division_Inr_count:
  "assign_division s b = Inr d \<Longrightarrow> int (count_students s (upper b) d) < 70 \<and> d \<in> set DIVISIONS"
proof -
  assume "assign_division s b = Inr d"
  then obtain pre post where "DIVISIONS = pre @ d # post"
      "dict_get (count_by_branch_division s b) d 0 < MAX_PER_DIVISION"
    using assign_division_loop_split [of "count_by_branch_division s b" DIVISIONS d]
    by (auto simp: assign_division_def)
  then have "d \<in> set DIVISIONS" "dict_get (count_by_branch_division s b) d 0 < MAX_PER_DIVISION"
    by (metis in_set_conv_decomp)+
  then show ?thesis
    by (simp add: dict_get_count MAX_PER_DIVISION_def)
qed

lemma assign_division_Inl:
  "assign_division s b = Inl e \<Longrightarrow>
     e = ValueError ''All divisions for this branch are full (3x70 = 210 students).''
     \<and> (\<forall>d \<in> set DIVISIONS. 70 \<le> int (count_students s (upper b) d))"
  using assign_division_loop_full [of "count_by_branch_division s b" DIVISIONS e]
  by (simp add: assign_division_def dict_get_count MAX_PER_DIVISION_def)

lemma generate_class_roll_eq:
  "generate_class_roll s b d =
     (if 70 \<le> int (count_students s (upper b) d)
      then Inl (ValueError (''Division '' @ d @ '' in '' @ b @ '' already full.''))
      else Inr (branch_code b @ d @ format_02d (int (count_students s (upper b) d) + 1)))"
  by (simp add: generate_class_roll_def dict_get_count MAX_PER_DIVISION_def Let_def)

lemma find_username_None:
  "find_student_by_username s u = None \<longleftrightarrow> u \<notin> set (map username (students s))"
  by (auto simp: find_student_by_username_def find_None_iff)

lemma register_student_Inr:
  assumes "register_student E uuid uname pw fn ln b ex s = (Inr st, s')"
  shows "\<exists>d. assign_division s b = Inr d
     \<and> uname \<noteq> [] \<and> strip uname \<noteq> []
     \<and> st = \<lparr>prn = py_str (next_prn s),
             class_roll = branch_code b @ d @ format_02d (int (count_students s (upper b) d) + 1),
             username = lower (strip uname), salt = uuid,
             pw_hash = sha256_hexdigest E (uuid @ pw),
             first_name = strip fn, last_name = strip ln, branch = upper (strip b),
             division = d, email = generate_email fn ln (py_str (next_prn s)) b,
             extra = (case ex of None \<Rightarrow> PDict [] | Some v \<Rightarrow> if truthy v then v else PDict [])\<rparr>
     \<and> prn st \<notin> set (map prn (students s))
     \<and> class_roll st \<notin> set (map class_roll (students s))
     \<and> username st \<notin> set (map username (students s))
     \<and> s' = \<lparr>students = students s @ [st\<lparr>extra := PStr (json_dumps E (extra st))\<rparr>],
             next_prn = next_prn s + 1\<rparr>"
  using assms
  by (auto simp: register_student_def validate_nonempty_def get_next_prn_def hash_password_def
        assign_division_next_prn generate_class_roll_eq count_students_next_prn
        insert_student_def find_username_None Let_def
      split: sum.splits if_splits prod.splits dest: assign_division_Inr_count)

lemma register_student_Inl:
  assumes "register_student E uuid uname pw fn ln b ex s = (Inl e, s')"
  shows "students s' = students s
     \<and> ((e = ValueError ''username cannot be empty.'' \<and> (uname = [] \<or> strip uname = []) \<and> s' = s)
        \<or> (e = ValueError ''Username already exists for a student.''
            \<and> lower (strip uname) \<in> set (map username (students s)) \<and> s' = s)
        \<or> (e = ValueError ''All divisions for this branch are full (3x70 = 210 students).''
            \<and> (\<forall>d \<in> set DIVISIONS. 70 \<le> int (count_students s (upper b) d))
            \<and> next_prn s' = next_prn s + 1)
        \<or> (e = IntegrityError \<and> next_prn s' = next_prn s + 1))"
  using assms
  by (auto simp: register_student_def validate_nonempty_def get_next_prn_def hash_password_def
        assign_division_next_prn generate_class_roll_eq count_students_next_prn
        insert_student_def find_username_None Let_def
      split: sum.splits if_splits prod.splits dest: assign_division_Inr_count assign_division_Inl)

section \<open>Facts about editing\<close>

lemma map_of_rev_distinct: "distinct (map fst xs) \<Longrightarrow> map_of (rev xs) = map_of xs"
proof (induction xs)
  case Nil
  then show ?case by simp
next
  case (Cons x xs)
  obtain k v where x: "x = (k, v)" by (cases x)
  from Cons.prems x have k: "map_of xs k = None"
    by (simp add: map_of_eq_None_iff)
  have "map_of (rev (x # xs)) = map_of [(k, v)] ++ map_of (rev xs)"
    by (simp add: x)
  also have "\<dots> = map_of [(k, v)] ++ map_of xs"
    using Cons by simp
  also have "\<dots> = map_of (x # xs)"
    using k by (auto simp: x fun_eq_iff map_add_def split: option.splits)
  finally show ?case .
qed

lemma fold_allowed_keys:
  "fst ` set (fold (\<lambda>(k, v) applied. if k \<notin> set allowed then applied else AList.update k v applied) upd acc)
     \<subseteq> fst ` set acc \<union> (fst ` set upd \<inter> set allowed)"
proof (induction upd arbitrary: acc)
  case Nil
  then show ?case by simp
next
  case (Cons x upd)
  obtain k v where x: "x = (k, v)" by (cases x)
  show ?case
    using Cons.IH [of acc] Cons.IH [of "AList.update k v acc"]
    by (auto simp: x dom_update)
qed

lemma fold_allowed_distinct:
  "distinct (map fst acc) \<Longrightarrow>
   distinct (map fst (fold (\<lambda>(k, v) applied. if k \<notin> set allowed then applied else AList.update k v applied) upd acc))"
proof (induction upd arbitrary: acc)
  case Nil
  then show ?case by simp
next
  case (Cons x upd)
  obtain k v where x: "x = (k, v)" by (cases x)
  show ?case
    using Cons.IH [of acc] Cons.IH [of "AList.update k v acc"] Cons.prems
    by (auto simp: x distinct_update)
qed

lemma filter_allowed_keys: "fst ` set (filter_allowed upd) \<subseteq> fst ` set upd \<inter> set allowed"
  using fold_allowed_keys [of upd "[]"] by (simp add: filter_allowed_def)

lemma filter_allowed_distinct: "distinct (map fst (filter_allowed upd))"
  using fold_allowed_distinct [of "[]" upd] by (simp add: filter_allowed_def)



lemma filter_allowed_none:
  "fst ` set upd \<inter> set allowed = {} \<Longrightarrow> filter_allowed upd = []"
  using filter_allowed_keys [of upd] by auto

lemma reassign_branch_Inr:
  assumes "reassign_branch s applied = Inr applied1"
  shows "(map_of applied ''branch'' = None \<and> applied1 = applied)
       \<or> (\<exists>nb d. map_of applied ''branch'' = Some (PStr nb)
             \<and> assign_division s (upper nb) = Inr d
             \<and> applied1 = AList.update ''class_roll''
                  (PStr (branch_code (upper nb) @ d @ format_02d (int (count_students s (upper nb) d) + 1)))
                  (AList.update ''division'' (PStr d)
                    (AList.update ''branch'' (PStr (upper nb)) applied)))"
  using assms
  by (auto simp: reassign_branch_def Let_def generate_class_roll_eq upper_idem
           split: option.splits pyval.splits sum.splits if_splits)

lemma encode_extra_keys: "map fst (encode_extra E a) = map fst a"
  by (auto simp: encode_extra_def update_keys split: option.splits pyval.splits
           dest: map_of_SomeD intro: rev_image_eqI)

lemma new_value_untouched: "k \<notin> fst ` set sets \<Longrightarrow> new_value sets k old = old"
proof -
  assume "k \<notin> fst ` set sets"
  then have "map_of (rev sets) k = None"
    by (simp add: map_of_eq_None_iff)
  then show ?thesis by (simp add: new_value_def)
qed

lemma new_value_set:
  "distinct (map fst sets) \<Longrightarrow> map_of sets k = Some (PStr t) \<Longrightarrow> new_value sets k old = t"
  by (simp add: new_value_def map_of_rev_distinct)

lemma extra_untouched:
  "''extra'' \<notin> fst ` set sets \<Longrightarrow> extra (assign_columns sets r) = extra r"
proof -
  assume "''extra'' \<notin> fst ` set sets"
  then have "map_of (rev sets) ''extra'' = None"
    by (simp add: map_of_eq_None_iff)
  then show ?thesis by (simp add: assign_columns_def)
qed

lemma map_of_map_keyed:
  "map_of (map (\<lambda>(k, v). (k, g k v)) xs) k = map_option (g k) (map_of xs k)"
  by (induction xs) auto

lemma encode_extra_other: "k \<noteq> ''extra'' \<Longrightarrow> map_of (encode_extra E a) k = map_of a k"
  by (auto simp: encode_extra_def update_conv' split: option.splits pyval.splits)

lemma update_student_Inr:
  assumes "update_student E p a s = (Inr u, s')"
  shows "students s' = map (\<lambda>x. if prn x = p
             then assign_columns (map (\<lambda>(k, v). (k, if k = ''extra'' then PStr (json_dumps E v) else v)) a) x
             else x) (students s)
       \<and> next_prn s' = next_prn s
       \<and> distinct (map prn (students s')) \<and> distinct (map class_roll (students s'))
       \<and> distinct (map username (students s'))"
  using assms
  by (auto simp: update_student_def execute_update_def Let_def split: if_splits)

lemma update_student_Inl:
  assumes "update_student E p a s = (Inl e, s')"
  shows "s' = s"
  using assms
  by (auto simp: update_student_def execute_update_def Let_def split: if_splits)

lemma sets_keys:
  "map fst (map (\<lambda>(k, v). (k, if k = ''extra'' then PStr (json_dumps E v) else v)) a) = map fst a"
  by (induction a) auto

lemma sets_value:
  "k \<noteq> ''extra'' \<Longrightarrow>
   map_of (map (\<lambda>(k, v). (k, if k = ''extra'' then PStr (json_dumps E v) else v)) a) k = map_of a k"
  by (induction a) auto

lemma edit_student_unfold:
  assumes "edit_student E p upd eb s = (Inr res, s')"
  shows "\<exists>r applied1. find_student_by_prn s p = Some r \<and> \<not> branch_mismatch eb r
      \<and> reassign_branch s (filter_allowed upd) = Inr applied1
      \<and> update_student E p (encode_extra E applied1) s = (Inr (), s')
      \<and> res = find_student_by_prn s' p"
  using assms
  by (auto simp: edit_student_def Let_def split: option.splits if_splits sum.splits prod.splits)

lemma edit_student_state:
  "snd (edit_student E p upd eb s) = s \<or>
   (\<exists>res. edit_student E p upd eb s = (Inr res, snd (edit_student E p upd eb s)))"
  by (auto simp: edit_student_def Let_def update_student_Inl
           split: option.splits if_splits sum.splits prod.splits)

lemma allowed_keys:
  "''prn'' \<notin> set allowed" "''username'' \<notin> set allowed" "''salt'' \<notin> set allowed"
  "''pw_hash'' \<notin> set allowed" "''division'' \<notin> set allowed" "''class_roll'' \<notin> set allowed"
  by (simp_all add: allowed_def)

lemma sub_plain: "K = F \<Longrightarrow> F \<subseteq> UA \<Longrightarrow> K \<subseteq> UA \<union> B"
  by blast

lemma sub_three: "K = {c} \<union> ({d} \<union> ({b} \<union> F)) \<Longrightarrow> F \<subseteq> UA \<Longrightarrow> K \<subseteq> UA \<union> {b, d, c}"
  by blast

lemma notin_sub_allowed: "K \<subseteq> (U \<inter> A) \<union> B \<Longrightarrow> k \<notin> A \<Longrightarrow> k \<notin> B \<Longrightarrow> k \<notin> K"
  by blast

lemma notin_sub_given: "K \<subseteq> (U \<inter> A) \<union> B \<Longrightarrow> k \<notin> U \<Longrightarrow> k \<notin> B \<Longrightarrow> k \<notin> K"
  by blast

lemma notin_sub_plain: "K \<subseteq> U \<inter> A \<Longrightarrow> k \<notin> A \<Longrightarrow> k \<notin> K"
  by blast

lemma notin_sub_plain_given: "K \<subseteq> U \<inter> A \<Longrightarrow> k \<notin> U \<Longrightarrow> k \<notin> K"
  by blast

lemma not_bdc:
  "''prn'' \<notin> {''branch'', ''division'', ''class_roll''}"
  "''username'' \<notin> {''branch'', ''division'', ''class_roll''}"
  "''salt'' \<notin> {''branch'', ''division'', ''class_roll''}"
  "''pw_hash'' \<notin> {''branch'', ''division'', ''class_roll''}"
  "''first_name'' \<notin> {''branch'', ''division'', ''class_roll''}"
  "''last_name'' \<notin> {''branch'', ''division'', ''class_roll''}"
  "''email'' \<notin> {''branch'', ''division'', ''class_roll''}"
  "''extra'' \<notin> {''branch'', ''division'', ''class_roll''}"
  by simp_all

lemma edit_student_effect:
  assumes "edit_student E p upd eb s = (Inr res, s')"
  shows "\<exists>r f. find_student_by_prn s p = Some r \<and> \<not> branch_mismatch eb r
     \<and> students s' = map (\<lambda>x. if prn x = p then f x else x) (students s)
     \<and> next_prn s' = next_prn s
     \<and> distinct (map prn (students s')) \<and> distinct (map class_roll (students s'))
     \<and> distinct (map username (students s'))
     \<and> res = find_student_by_prn s' p
     \<and> (\<forall>x. prn (f x) = prn x \<and> username (f x) = username x \<and> salt (f x) = salt x
            \<and> pw_hash (f x) = pw_hash x
            \<and> (''first_name'' \<notin> fst ` set upd \<longrightarrow> first_name (f x) = first_name x)
            \<and> (''last_name'' \<notin> fst ` set upd \<longrightarrow> last_name (f x) = last_name x)
            \<and> (''email'' \<notin> fst ` set upd \<longrightarrow> email (f x) = email x)
            \<and> (''extra'' \<notin> fst ` set upd \<longrightarrow> extra (f x) = extra x)
            \<and> (''branch'' \<notin> fst ` set upd \<longrightarrow>
                  branch (f x) = branch x \<and> division (f x) = division x
                  \<and> class_roll (f x) = class_roll x)
            \<and> (roll_ok x \<longrightarrow> roll_ok (f x)))"
proof -
  from edit_student_unfold [OF assms] obtain r applied1 where
    r: "find_student_by_prn s p = Some r" "\<not> branch_mismatch eb r" and
    re: "reassign_branch s (filter_allowed upd) = Inr applied1" and
    up: "update_student E p (encode_extra E applied1) s = (Inr (), s')" and
    res: "res = find_student_by_prn s' p"
    by blast
  let ?S = "map (\<lambda>(k, v). (k, if k = ''extra'' then PStr (json_dumps E v) else v))
              (encode_extra E applied1)"
  let ?f = "assign_columns ?S"
  let ?fa = "filter_allowed upd"
  have keysS: "map fst ?S = map fst applied1"
    by (simp only: sets_keys encode_extra_keys)
  then have setS: "fst ` set ?S = fst ` set applied1"
    by (metis list.set_map)
  have fa: "fst ` set ?fa \<subseteq> fst ` set upd \<inter> set allowed"
    by (rule filter_allowed_keys)
  from update_student_Inr [OF up] have st:
    "students s' = map (\<lambda>x. if prn x = p then ?f x else x) (students s)"
    "next_prn s' = next_prn s"
    "distinct (map prn (students s'))" "distinct (map class_roll (students s'))"
    "distinct (map username (students s'))"
    by blast+
  have fields: "\<And>x. prn (?f x) = new_value ?S ''prn'' (prn x)"
    "\<And>x. username (?f x) = new_value ?S ''username'' (username x)"
    "\<And>x. salt (?f x) = new_value ?S ''salt'' (salt x)"
    "\<And>x. pw_hash (?f x) = new_value ?S ''pw_hash'' (pw_hash x)"
    "\<And>x. first_name (?f x) = new_value ?S ''first_name'' (first_name x)"
    "\<And>x. last_name (?f x) = new_value ?S ''last_name'' (last_name x)"
    "\<And>x. email (?f x) = new_value ?S ''email'' (email x)"
    "\<And>x. branch (?f x) = new_value ?S ''branch'' (branch x)"
    "\<And>x. division (?f x) = new_value ?S ''division'' (division x)"
    "\<And>x. class_roll (?f x) = new_value ?S ''class_roll'' (class_roll x)"
    by (simp_all add: assign_columns_def)
  have unt: "\<And>k old. k \<notin> fst ` set ?S \<Longrightarrow> new_value ?S k old = old"
    by (rule new_value_untouched)
  have Ksub: "fst ` set ?S \<subseteq> (fst ` set upd \<inter> set allowed) \<union> {''branch'', ''division'', ''class_roll''}"
  proof (cases "map_of ?fa ''branch''")
    case None
    with reassign_branch_Inr [OF re] have "applied1 = ?fa" by auto
    with setS have "fst ` set ?S = fst ` set ?fa" by simp
    then show ?thesis by (rule sub_plain [OF _ fa])
  next
    case (Some v)
    with reassign_branch_Inr [OF re] obtain x y z where
      "applied1 = AList.update ''class_roll'' x (AList.update ''division'' y
                    (AList.update ''branch'' z ?fa))"
      by auto
    then have "fst ` set applied1 = {''class_roll''} \<union> ({''division''} \<union> ({''branch''} \<union> fst ` set ?fa))"
      by (simp only: dom_update)
    with setS have "fst ` set ?S = {''class_roll''} \<union> ({''division''} \<union> ({''branch''} \<union> fst ` set ?fa))"
      by (rule trans)
    then show ?thesis by (rule sub_three [OF _ fa])
  qed
  have out: "''prn'' \<notin> fst ` set ?S" "''username'' \<notin> fst ` set ?S"
      "''salt'' \<notin> fst ` set ?S" "''pw_hash'' \<notin> fst ` set ?S"
    by (rule notin_sub_allowed [OF Ksub], rule allowed_keys, rule not_bdc)+
  have same: "\<And>x. prn (?f x) = prn x" "\<And>x. username (?f x) = username x"
      "\<And>x. salt (?f x) = salt x" "\<And>x. pw_hash (?f x) = pw_hash x"
    by (simp_all only: fields unt [OF out(1)] unt [OF out(2)] unt [OF out(3)] unt [OF out(4)])
  have other: "\<And>x. ''first_name'' \<notin> fst ` set upd \<Longrightarrow> first_name (?f x) = first_name x"
      "\<And>x. ''last_name'' \<notin> fst ` set upd \<Longrightarrow> last_name (?f x) = last_name x"
      "\<And>x. ''email'' \<notin> fst ` set upd \<Longrightarrow> email (?f x) = email x"
  proof -
    fix x
    show "''first_name'' \<notin> fst ` set upd \<Longrightarrow> first_name (?f x) = first_name x"
    proof -
      assume "''first_name'' \<notin> fst ` set upd"
      then have "''first_name'' \<notin> fst ` set ?S" by (rule notin_sub_given [OF Ksub]) (rule not_bdc)
      then have "new_value ?S ''first_name'' (first_name x) = first_name x" by (rule unt)
      then show ?thesis by (simp only: fields)
    qed
    show "''last_name'' \<notin> fst ` set upd \<Longrightarrow> last_name (?f x) = last_name x"
    proof -
      assume "''last_name'' \<notin> fst ` set upd"
      then have "''last_name'' \<notin> fst ` set ?S" by (rule notin_sub_given [OF Ksub]) (rule not_bdc)
      then have "new_value ?S ''last_name'' (last_name x) = last_name x" by (rule unt)
      then show ?thesis by (simp only: fields)
    qed
    show "''email'' \<notin> fst ` set upd \<Longrightarrow> email (?f x) = email x"
    proof -
      assume "''email'' \<notin> fst ` set upd"
      then have "''email'' \<notin> fst ` set ?S" by (rule notin_sub_given [OF Ksub]) (rule not_bdc)
      then have "new_value ?S ''email'' (email x) = email x" by (rule unt)
      then show ?thesis by (simp only: fields)
    qed
  qed
  have ext: "\<And>x. ''extra'' \<notin> fst ` set upd \<Longrightarrow> extra (?f x) = extra x"
  proof -
    fix x
    assume "''extra'' \<notin> fst ` set upd"
    then have "''extra'' \<notin> fst ` set ?S" by (rule notin_sub_given [OF Ksub]) (rule not_bdc)
    then show "extra (?f x) = extra x" by (rule extra_untouched)
  qed
  have bdc: "\<And>x. ''branch'' \<notin> fst ` set upd \<Longrightarrow>
       branch (?f x) = branch x \<and> division (?f x) = division x \<and> class_roll (?f x) = class_roll x"
  proof -
    fix x
    assume nb: "''branch'' \<notin> fst ` set upd"
    then have "''branch'' \<notin> fst ` set ?fa" using fa by auto
    then have "map_of ?fa ''branch'' = None" by (simp add: map_of_eq_None_iff)
    with reassign_branch_Inr [OF re] have "applied1 = ?fa" by auto
    then have sub: "fst ` set ?S \<subseteq> fst ` set upd \<inter> set allowed" using fa setS by simp
    have "''branch'' \<notin> fst ` set ?S"
      by (rule notin_sub_plain_given [OF sub nb])
    moreover have "''division'' \<notin> fst ` set ?S" "''class_roll'' \<notin> fst ` set ?S"
      by (rule notin_sub_plain [OF sub], rule allowed_keys)+
    ultimately have n: "''branch'' \<notin> fst ` set ?S" "''division'' \<notin> fst ` set ?S"
       "''class_roll'' \<notin> fst ` set ?S"
      by blast+
    show "branch (?f x) = branch x \<and> division (?f x) = division x
        \<and> class_roll (?f x) = class_roll x"
      by (simp only: fields unt [OF n(1)] unt [OF n(2)] unt [OF n(3)] simp_thms)
  qed
  have rok: "\<And>x. roll_ok x \<Longrightarrow> roll_ok (?f x)"
  proof -
    fix x
    assume ok: "roll_ok x"
    show "roll_ok (?f x)"
    proof (cases "map_of ?fa ''branch''")
      case None
      with reassign_branch_Inr [OF re] have "applied1 = ?fa" by auto
      then have sub: "fst ` set ?S \<subseteq> fst ` set upd \<inter> set allowed"
        and eq: "fst ` set ?S = fst ` set ?fa" using fa setS by simp_all
      from None have "''branch'' \<notin> fst ` set ?fa" by (simp add: map_of_eq_None_iff)
      with eq have "''branch'' \<notin> fst ` set ?S" by simp
      moreover have "''division'' \<notin> fst ` set ?S" "''class_roll'' \<notin> fst ` set ?S"
        by (rule notin_sub_plain [OF sub], rule allowed_keys)+
      ultimately have n: "''branch'' \<notin> fst ` set ?S" "''division'' \<notin> fst ` set ?S"
         "''class_roll'' \<notin> fst ` set ?S"
        by blast+
      have "branch (?f x) = branch x" "division (?f x) = division x"
          "class_roll (?f x) = class_roll x"
        by (simp_all only: fields unt [OF n(1)] unt [OF n(2)] unt [OF n(3)])
      with ok show ?thesis by (simp only: roll_ok_def)
    next
      case (Some v)
      with reassign_branch_Inr [OF re] obtain nb d where
        ad: "assign_division s (upper nb) = Inr d" and
        a1: "applied1 = AList.update ''class_roll''
                  (PStr (branch_code (upper nb) @ d @ format_02d (int (count_students s (upper nb) d) + 1)))
                  (AList.update ''division'' (PStr d)
                    (AList.update ''branch'' (PStr (upper nb)) ?fa))"
        by auto
      let ?roll = "branch_code (upper nb) @ d @ format_02d (int (count_students s (upper nb) d) + 1)"
      have "distinct (map fst applied1)"
        unfolding a1 by (intro distinct_update filter_allowed_distinct)
      with keysS have dist: "distinct (map fst ?S)" by simp
      have vals: "map_of ?S ''branch'' = Some (PStr (upper nb))"
        "map_of ?S ''division'' = Some (PStr d)"
        "map_of ?S ''class_roll'' = Some (PStr ?roll)"
        by (simp_all add: sets_value encode_extra_other a1 update_conv')
      have new: "branch (?f x) = upper nb" "division (?f x) = d" "class_roll (?f x) = ?roll"
        by (simp_all only: fields new_value_set [OF dist vals(1)] new_value_set [OF dist vals(2)]
              new_value_set [OF dist vals(3)])
      from assign_division_Inr_count [OF ad] have "int (count_students s (upper nb) d) < 70"
        by (simp add: upper_idem)
      then have "int (count_students s (upper nb) d) + 1 \<in> {1..70}" by simp
      then show ?thesis
        unfolding roll_ok_def new by blast
    qed
  qed
  show ?thesis
  proof (intro exI [of _ r] exI [of _ ?f] conjI allI impI)
    fix x
    show "first_name (?f x) = first_name x" if "''first_name'' \<notin> fst ` set upd"
      using that by (rule other)
    show "last_name (?f x) = last_name x" if "''last_name'' \<notin> fst ` set upd"
      using that by (rule other)
    show "email (?f x) = email x" if "''email'' \<notin> fst ` set upd"
      using that by (rule other)
    show "extra (?f x) = extra x" if "''extra'' \<notin> fst ` set upd"
      using that by (rule ext)
    show "branch (?f x) = branch x" "division (?f x) = division x"
        "class_roll (?f x) = class_roll x" if "''branch'' \<notin> fst ` set upd"
      using bdc [OF that] by blast+
    show "roll_ok (?f x)" if "roll_ok x"
      using that by (rule rok)
  qed (fact r st res same)+
qed




section \<open>The invariant of the store\<close>

lemma prn_ok_mono: "prn_ok v r \<Longrightarrow> v \<le> w \<Longrightarrow> prn_ok w r"
  by (simp add: prn_ok_def)

lemma store_inv_init: "store_inv init_store"
  by (simp add: store_inv_def init_store_def)

lemma store_inv_same_rows:
  "store_inv s \<Longrightarrow> students s' = students s \<Longrightarrow> next_prn s \<le> next_prn s' \<Longrightarrow> store_inv s'"
  by (auto simp: store_inv_def intro: prn_ok_mono)

lemma store_inv_register:
  assumes "store_inv s"
  shows "store_inv (snd (register_student E uuid uname pw fn ln b ex s))"
proof (cases "register_student E uuid uname pw fn ln b ex s")
  case (Pair res s')
  show ?thesis
  proof (cases res)
    case (Inl e)
    with Pair register_student_Inl [of E uuid uname pw fn ln b ex s e s']
    have "students s' = students s" "next_prn s \<le> next_prn s'"
      by auto
    with assms Pair show ?thesis
      by (simp add: store_inv_same_rows)
  next
    case (Inr st)
    with Pair register_student_Inr [of E uuid uname pw fn ln b ex s st s']
    obtain d where d: "assign_division s b = Inr d"
      and roll: "class_roll st = branch_code b @ d @ format_02d (int (count_students s (upper b) d) + 1)"
      and bd: "branch st = upper (strip b)" "division st = d"
      and p: "prn st = py_str (next_prn s)"
      and fresh: "prn st \<notin> set (map prn (students s))"
         "class_roll st \<notin> set (map class_roll (students s))"
         "username st \<notin> set (map username (students s))"
      and s': "s' = \<lparr>students = students s @ [st\<lparr>extra := PStr (json_dumps E (extra st))\<rparr>],
             next_prn = next_prn s + 1\<rparr>"
      by auto
    let ?row = "st\<lparr>extra := PStr (json_dumps E (extra st))\<rparr>"
    from assign_division_Inr_count [OF d] have "int (count_students s (upper b) d) + 1 \<in> {1..70}"
      by simp
    then have rok: "roll_ok ?row"
      unfolding roll_ok_def by (rule rev_bexI) (simp add: roll bd branch_code_upper_strip)
    have pok: "prn_ok (next_prn s + 1) ?row"
      by (simp add: prn_ok_def p py_int_py_str)
    have old: "\<forall>r \<in> set (students s). roll_ok r \<and> prn_ok (next_prn s + 1) r"
      using assms by (auto simp: store_inv_def intro: prn_ok_mono)
    have "store_inv s'"
      using assms fresh rok pok old by (simp add: store_inv_def s')
    with Pair show ?thesis by simp
  qed
qed

lemma store_inv_edit:
  assumes "store_inv s"
  shows "store_inv (snd (edit_student E p upd eb s))"
proof -
  let ?s' = "snd (edit_student E p upd eb s)"
  from edit_student_state [of E p upd eb s] show ?thesis
  proof
    assume "?s' = s"
    with assms show ?thesis by simp
  next
    assume "\<exists>res. edit_student E p upd eb s = (Inr res, ?s')"
    then obtain res where "edit_student E p upd eb s = (Inr res, ?s')" ..
    from edit_student_effect [OF this] obtain f where
      st: "students ?s' = map (\<lambda>x. if prn x = p then f x else x) (students s)" and
      np: "next_prn ?s' = next_prn s" and
      di: "distinct (map prn (students ?s'))" "distinct (map class_roll (students ?s'))"
          "distinct (map username (students ?s'))" and
      f: "\<And>x. prn (f x) = prn x" "\<And>x. roll_ok x \<Longrightarrow> roll_ok (f x)"
      by blast
    have "roll_ok r \<and> prn_ok (next_prn ?s') r" if "r \<in> set (students ?s')" for r
    proof -
      from that st obtain x where x: "x \<in> set (students s)" "r = (if prn x = p then f x else x)"
        by auto
      with assms have ok: "roll_ok x" "prn_ok (next_prn s) x"
        by (auto simp: store_inv_def)
      show ?thesis
      proof (cases "prn x = p")
        case True
        with x ok f show ?thesis by (simp add: np prn_ok_def)
      next
        case False
        with x ok show ?thesis by (simp add: np)
      qed
    qed
    with di show ?thesis by (simp add: store_inv_def)
  qed
qed

lemma store_inv_delete:
  assumes "store_inv s"
  shows "store_inv (snd (delete_student p eb s))"
  using assms
  by (auto simp: delete_student_def storage_delete_student_def store_inv_def distinct_map_filter
           split: option.splits)

lemma store_inv_exec: "store_inv s \<Longrightarrow> store_inv (exec E s c)"
  by (cases c) (simp_all add: store_inv_register store_inv_edit store_inv_delete)

lemma store_inv_foldl: "store_inv s \<Longrightarrow> store_inv (foldl (exec E) s calls)"
  by (induction calls arbitrary: s) (simp_all add: store_inv_exec)

lemma store_inv_run: "store_inv s \<Longrightarrow> store_inv (run E calls s)"
  by (simp add: run_def store_inv_foldl)

lemma store_inv_count:
  assumes "store_inv s"
  shows "count_students s b d \<le> 70"
proof -
  let ?xs = "filter (\<lambda>r. branch r = b \<and> division r = d) (students s)"
  let ?rolls = "(\<lambda>k. branch_code b @ d @ format_02d k) ` {1..70::int}"
  from assms have "distinct (map class_roll (students s))"
    by (simp add: store_inv_def)
  then have dist: "distinct (map class_roll ?xs)"
    by (rule distinct_map_filter)
  have "set (map class_roll ?xs) \<subseteq> ?rolls"
    using assms by (auto simp: store_inv_def roll_ok_def)
  then have "card (set (map class_roll ?xs)) \<le> card ?rolls"
    by (intro card_mono) auto
  also have "\<dots> \<le> card {1..70::int}"
    by (rule card_image_le) simp
  finally have "card (set (map class_roll ?xs)) \<le> 70" by simp
  moreover from dist have "card (set (map class_roll ?xs)) = length (map class_roll ?xs)"
    by (rule distinct_card)
  ultimately have "length ?xs \<le> 70" by simp
  then show ?thesis
    by (simp only: count_students_def)
qed







lemma register_student_full:
  assumes "\<forall>e \<in> set DIVISIONS. 70 \<le> int (count_students s (upper b) e)"
    and "uname \<noteq> []" "strip uname \<noteq> []"
    and "lower (strip uname) \<notin> set (map username (students s))"
  shows "register_student E uuid uname pw fn ln b ex s
     = (Inl (ValueError ''All divisions for this branch are full (3x70 = 210 students).''),
        s\<lparr>next_prn := next_prn s + 1\<rparr>)"
proof -
  have "assign_division s b
      = Inl (ValueError ''All divisions for this branch are full (3x70 = 210 students).'')"
    using assms(1) assign_division_loop_full [of "count_by_branch_division s b" DIVISIONS]
    by (simp add: assign_division_def dict_get_count MAX_PER_DIVISION_def)
  then show ?thesis
    using assms(2-4)
    by (simp add: register_student_def validate_nonempty_def find_username_None get_next_prn_def
          hash_password_def assign_division_next_prn Let_def)
qed

lemma store_inv_prn_fresh:
  assumes "store_inv s" and "next_prn s \<le> v"
  shows "py_str v \<notin> set (map prn (students s))"
proof
  assume "py_str v \<in> set (map prn (students s))"
  then obtain r where r: "r \<in> set (students s)" "prn r = py_str v" by auto
  with assms(1) have "prn_ok (next_prn s) r" by (simp add: store_inv_def)
  with r(2) have "v < next_prn s" by (simp add: prn_ok_def py_int_py_str)
  with assms(2) show False by simp
qed

lemma get_next_prn_eq: "get_next_prn s = (py_str (next_prn s), s\<lparr>next_prn := next_prn s + 1\<rparr>)"
  by (simp add: get_next_prn_def Let_def)

lemma assign_division_students:
  "students s' = students s \<Longrightarrow> assign_division s' b = assign_division s b"
  by (simp add: assign_division_def count_by_branch_division_def)

lemma count_students_students:
  "students s' = students s \<Longrightarrow> count_students s' b d = count_students s b d"
  by (simp add: count_students_def)

lemma generate_class_roll_students:
  "students s' = students s \<Longrightarrow> generate_class_roll s' b d = generate_class_roll s b d"
  by (simp add: generate_class_roll_def count_by_branch_division_def)

lemma register_student_succeeds:
  assumes "uname \<noteq> []" "strip uname \<noteq> []"
    and "lower (strip uname) \<notin> set (map username (students s))"
    and "assign_division s b = Inr d"
    and "py_str (next_prn s) \<notin> set (map prn (students s))"
    and "branch_code b @ d @ format_02d (int (count_students s (upper b) d) + 1)
           \<notin> set (map class_roll (students s))"
  shows "\<exists>st s'. register_student E uuid uname pw fn ln b ex s = (Inr st, s')
     \<and> class_roll st = branch_code b @ d @ format_02d (int (count_students s (upper b) d) + 1)
     \<and> division st = d \<and> prn st = py_str (next_prn s)"
proof -
  from assign_division_Inr_count [OF assms(4)] have "\<not> 70 \<le> int (count_students s (upper b) d)"
    by simp
  then show ?thesis
    using assms
    by (simp add: register_student_def validate_nonempty_def find_username_None get_next_prn_eq
          hash_password_def assign_division_next_prn generate_class_roll_eq
          count_students_next_prn insert_student_def Let_def)
qed

lemma delete_student_Inr:
  "delete_student p eb s = (Inr ok, s') \<Longrightarrow>
     students s' = filter (\<lambda>r. prn r \<noteq> p) (students s) \<and> next_prn s' = next_prn s"
  by (auto simp: delete_student_def storage_delete_student_def split: option.splits if_splits)

lemma strip_Nil: "strip [] = []"
  by (simp add: strip_def)

lemma validate_nonempty_eq:
  "validate_nonempty t name =
     (if strip t = [] then Inl (ValueError (name @ '' cannot be empty.'')) else Inr (strip t))"
  by (auto simp: validate_nonempty_def strip_Nil)

section \<open>Facts about the sample stores\<close>


lemma three_cs_ann: "find_student_by_prn three_cs ''1001'' = Some ann_row"
  by code_simp

lemma packed_cs_usernames: "''zoe'' \<notin> set (map username (students packed_cs))"
  by (auto simp: packed_cs_def block_def seat_def)

lemma lower_strip_zoe: "lower (strip ''zoe'') = ''zoe''" "strip ''zoe'' \<noteq> []"
  by code_simp+

lemma format_02d_inj: "0 \<le> i \<Longrightarrow> 0 \<le> j \<Longrightarrow> format_02d i = format_02d j \<Longrightarrow> i = j"
  by (metis format_02d_inv)

lemma rolls_inj: "inj_on (\<lambda>k. c @ d @ format_02d k) {1..70::int}"
  by (rule inj_onI) (simp, metis format_02d_inv order_trans zero_le_one)

lemma card_rolls: "card ((\<lambda>k. c @ d @ format_02d k) ` {1..70::int}) = 70"
  by (simp add: card_image [OF rolls_inj])

lemma full_division_rolls:
  assumes "store_inv s" and "70 \<le> count_students s b d" and "1 \<le> k" and "k \<le> 70"
  shows "branch_code b @ d @ format_02d k \<in> set (map class_roll (students s))"
proof -
  let ?xs = "filter (\<lambda>r. branch r = b \<and> division r = d) (students s)"
  let ?rolls = "(\<lambda>k. branch_code b @ d @ format_02d k) ` {1..70::int}"
  from assms(1) have "distinct (map class_roll (students s))"
    by (simp add: store_inv_def)
  then have "distinct (map class_roll ?xs)"
    by (rule distinct_map_filter)
  then have "card (set (map class_roll ?xs)) = length (map class_roll ?xs)"
    by (rule distinct_card)
  with assms(2) have big: "card ?rolls \<le> card (set (map class_roll ?xs))"
    by (simp add: card_rolls count_students_def)
  have sub: "set (map class_roll ?xs) \<subseteq> ?rolls"
    using assms(1) by (auto simp: store_inv_def roll_ok_def)
  have "finite ?rolls" by simp
  from card_seteq [OF this sub big] have "set (map class_roll ?xs) = ?rolls" .
  moreover from assms(3,4) have "branch_code b @ d @ format_02d k \<in> ?rolls" by simp
  ultimately have "branch_code b @ d @ format_02d k \<in> set (map class_roll ?xs)" by simp
  then show ?thesis by auto
qed

lemma register_student_packed_fails:
  assumes "store_inv s"
    and "\<forall>e \<in> set DIVISIONS. 70 \<le> int (count_students s (upper (strip b)) e)"
  shows "isl (fst (register_student E uuid uname pw fn ln b ex s))
     \<and> students (snd (register_student E uuid uname pw fn ln b ex s)) = students s"
proof (cases "register_student E uuid uname pw fn ln b ex s")
  case (Pair res s')
  show ?thesis
  proof (cases res)
    case (Inl e)
    with Pair register_student_Inl [of E uuid uname pw fn ln b ex s e s'] show ?thesis
      by simp
  next
    case (Inr st)
    with Pair have r: "register_student E uuid uname pw fn ln b ex s = (Inr st, s')" by simp
    from register_student_Inr [OF r] obtain d where
      d: "assign_division s b = Inr d" and
      roll: "class_roll st = branch_code b @ d @ format_02d (int (count_students s (upper b) d) + 1)" and
      fresh: "class_roll st \<notin> set (map class_roll (students s))"
      by auto
    from assign_division_Inr_count [OF d] have c: "int (count_students s (upper b) d) < 70"
      and dd: "d \<in> set DIVISIONS" by simp_all
    from assms(2) dd have "70 \<le> count_students s (upper (strip b)) d" by auto
    from full_division_rolls [OF assms(1) this, of "int (count_students s (upper b) d) + 1"] c
    have "branch_code (upper (strip b)) @ d @ format_02d (int (count_students s (upper b) d) + 1)
        \<in> set (map class_roll (students s))"
      by simp
    with fresh roll have False
      by (simp add: branch_code_upper_strip)
    then show ?thesis ..
  qed
qed

lemma py_int_123: "py_int ''1'' = 1" "py_int ''2'' = 2" "py_int ''3'' = 3"
  by code_simp+

lemma branch_code_CS: "branch_code ''CS'' = ''CS''"
  by code_simp

lemma concat_blocks:
  "concat (map (\<lambda>d. map (f d) ks) ds) = map (\<lambda>(d, k). f d k) (List.product ds ks)"
  by (induction ds) (simp_all add: comp_def)

lemma distinct_blocks:
  assumes "distinct ds" and "distinct ks"
    and "\<And>d k d' k'. d \<in> set ds \<Longrightarrow> d' \<in> set ds \<Longrightarrow> k \<in> set ks \<Longrightarrow> k' \<in> set ks
           \<Longrightarrow> f d k = f d' k' \<Longrightarrow> d = d' \<and> k = k'"
  shows "distinct (concat (map (\<lambda>d. map (f d) ks) ds))"
proof -
  have "distinct (List.product ds ks)"
    using assms(1,2) by (rule distinct_product)
  moreover have "inj_on (\<lambda>(d, k). f d k) (set (List.product ds ks))"
    by (rule inj_onI) (use assms(3) in auto)
  ultimately show ?thesis
    by (simp add: concat_blocks distinct_map)
qed

lemma packed_cs_rows:
  "students packed_cs = concat (map (\<lambda>d. map (seat ''CS'' d) [1..70]) [''1'', ''2'', ''3''])"
  by (simp add: packed_cs_def block_def del: upto_rec_numeral)

lemma packed_cs_keys:
  "map key (students packed_cs)
     = concat (map (\<lambda>d. map (\<lambda>k. key (seat ''CS'' d k)) [1..70]) [''1'', ''2'', ''3''])"
  by (simp add: packed_cs_def block_def del: upto_rec_numeral)

lemma three_cases:
  assumes "d \<in> set [''1'', ''2'', ''3'']"
  obtains "d = ''1''" | "d = ''2''" | "d = ''3''"
proof -
  from assms have "d = ''1'' \<or> d = ''2'' \<or> d = ''3''" by simp
  then show thesis by (elim disjE) (erule that)+
qed

lemma seat_prn_inj:
  assumes "d \<in> set [''1'', ''2'', ''3'']" "d' \<in> set [''1'', ''2'', ''3'']"
    and "k \<in> set [1..70]" "k' \<in> set [1..70]"
    and "prn (seat ''CS'' d k) = prn (seat ''CS'' d' k')"
  shows "d = d' \<and> k = k'"
proof -
  from assms(5) have "py_str (1000 + 70 * (py_int d - 1) + k) = py_str (1000 + 70 * (py_int d' - 1) + k')"
    by (simp add: seat_def)
  then have "1000 + 70 * (py_int d - 1) + k = 1000 + 70 * (py_int d' - 1) + k'"
    by (rule py_str_inj)
  then have e: "70 * (py_int d - 1) + k = 70 * (py_int d' - 1) + k'"
    by simp
  from assms(3,4) have b: "1 \<le> k" "k \<le> 70" "1 \<le> k'" "k' \<le> 70"
    by (simp_all only: set_upto atLeastAtMost_iff)
  from assms(1) show ?thesis
  proof (cases rule: three_cases)
    case 1
    from assms(2) show ?thesis
      by (cases rule: three_cases) (use 1 e b in \<open>simp_all add: py_int_123\<close>)
  next
    case 2
    from assms(2) show ?thesis
      by (cases rule: three_cases) (use 2 e b in \<open>simp_all add: py_int_123\<close>)
  next
    case 3
    from assms(2) show ?thesis
      by (cases rule: three_cases) (use 3 e b in \<open>simp_all add: py_int_123\<close>)
  qed
qed

lemma seat_text_inj:
  assumes "d \<in> set [''1'', ''2'', ''3'']" "d' \<in> set [''1'', ''2'', ''3'']"
    and "k \<in> set [1..70]" "k' \<in> set [1..70]"
    and "c @ d @ format_02d k = c @ d' @ format_02d k'"
  shows "d = d' \<and> k = k'"
proof -
  from assms(5) have e: "d @ format_02d k = d' @ format_02d k'" by simp
  from assms(3,4) have "1 \<le> k" "1 \<le> k'"
    by (simp_all only: set_upto atLeastAtMost_iff)
  then have b: "0 \<le> k" "0 \<le> k'" by simp_all
  have same: "format_02d k = format_02d k' \<Longrightarrow> k = k'"
    using b by (rule format_02d_inj)
  from assms(1) show ?thesis
  proof (cases rule: three_cases)
    case 1
    from assms(2) show ?thesis
      by (cases rule: three_cases) (use 1 e same in simp_all)
  next
    case 2
    from assms(2) show ?thesis
      by (cases rule: three_cases) (use 2 e same in simp_all)
  next
    case 3
    from assms(2) show ?thesis
      by (cases rule: three_cases) (use 3 e same in simp_all)
  qed
qed

lemma packed_cs_member:
  assumes "r \<in> set (students packed_cs)"
  obtains d k where "d \<in> set [''1'', ''2'', ''3'']" "1 \<le> k" "k \<le> 70" "r = seat ''CS'' d k"
proof -
  from assms have "r \<in> (\<Union>d \<in> set [''1'', ''2'', ''3'']. seat ''CS'' d ` set [1..70])"
    by (simp only: packed_cs_rows set_concat set_map image_image)
  then obtain d where d: "d \<in> set [''1'', ''2'', ''3'']" and "r \<in> seat ''CS'' d ` set [1..70]"
    by (rule UN_E)
  from this(2) obtain k where k: "r = seat ''CS'' d k" "k \<in> set [1..70]"
    by (rule imageE)
  from k(2) have "1 \<le> k" "k \<le> 70"
    by (simp_all only: set_upto atLeastAtMost_iff)
  with d k(1) show thesis by (intro that)
qed

lemma seat_roll_ok: "1 \<le> k \<Longrightarrow> k \<le> 70 \<Longrightarrow> roll_ok (seat b d k)"
  unfolding roll_ok_def by (rule bexI [of _ k]) (simp_all add: seat_def)

lemma seat_prn_ok:
  assumes "d \<in> set [''1'', ''2'', ''3'']" "1 \<le> k" "k \<le> 70"
  shows "prn_ok 1211 (seat b d k)"
  using assms(1)
  by (cases rule: three_cases) (use assms(2,3) in \<open>simp_all add: prn_ok_def seat_def py_int_py_str py_int_123\<close>)

lemma store_inv_packed_cs: "store_inv packed_cs"
proof -
  have ds: "distinct [''1'', ''2'', ''3'']" by simp
  have ks: "distinct [1..70::int]" by (rule distinct_upto)
  have p: "distinct (map prn (students packed_cs))"
    unfolding packed_cs_keys using ds ks by (rule distinct_blocks) (rule seat_prn_inj)
  have "distinct (concat (map (\<lambda>d. map (\<lambda>k. ''CS'' @ d @ format_02d k) [1..70]) [''1'', ''2'', ''3'']))"
    using ds ks by (rule distinct_blocks) (rule seat_text_inj)
  then have r: "distinct (map class_roll (students packed_cs))"
    by (simp only: packed_cs_keys) (simp add: seat_def branch_code_CS del: upto_rec_numeral)
  have "distinct (concat (map (\<lambda>d. map (\<lambda>k. ''u'' @ d @ format_02d k) [1..70]) [''1'', ''2'', ''3'']))"
    using ds ks by (rule distinct_blocks) (rule seat_text_inj)
  then have u: "distinct (map username (students packed_cs))"
    by (simp only: packed_cs_keys) (simp add: seat_def del: upto_rec_numeral)
  have rows: "roll_ok x \<and> prn_ok (next_prn packed_cs) x" if "x \<in> set (students packed_cs)" for x
  proof -
    from that obtain d k where "d \<in> set [''1'', ''2'', ''3'']" "1 \<le> k" "k \<le> 70" "x = seat ''CS'' d k"
      by (rule packed_cs_member)
    moreover have "next_prn packed_cs = 1211" by (simp add: packed_cs_def)
    ultimately show ?thesis
      by (simp only: seat_roll_ok seat_prn_ok simp_thms)
  qed
  from p r u rows show ?thesis
    unfolding store_inv_def by blast
qed

lemma strings_CS:
  "upper (strip '' CS '') = ''CS''" "upper '' CS '' = '' CS ''" "branch_code '' CS '' = ''CS''"
  "strip ''CS'' = ''CS''" "format_02d 1 = ''01''"
  by code_simp+

lemma packed_cs_branch: "r \<in> set (students packed_cs) \<Longrightarrow> branch r = ''CS''"
  by (erule packed_cs_member) (simp add: seat_def)

lemma count_packed_cs_untrimmed: "count_students packed_cs '' CS '' d = 0"
proof -
  have "filter (\<lambda>r. branch r = '' CS '' \<and> division r = d) (students packed_cs) = []"
    unfolding filter_empty_conv
  proof
    fix r
    assume "r \<in> set (students packed_cs)"
    then have "branch r = ''CS''" by (rule packed_cs_branch)
    then show "\<not> (branch r = '' CS '' \<and> division r = d)" by simp
  qed
  then show ?thesis by (simp only: count_students_def list.size)
qed

lemma packed_cs_next_prn: "next_prn packed_cs = 1211"
  by (simp add: packed_cs_def)

lemma packed_cs_has_CS101: "''CS101'' \<in> class_roll ` set (students packed_cs)"
proof -
  have "70 \<le> count_students packed_cs ''CS'' ''1''" by (simp add: count_packed_cs)
  from full_division_rolls [OF store_inv_packed_cs this, of 1] show ?thesis
    by (simp add: branch_code_CS strings_CS)
qed

lemma register_untrimmed_packed:
  "register_student stub_env ''5f0c'' ''zoe'' ''pw'' ''Zoe'' ''Roe'' '' CS '' None packed_cs
     = (Inl IntegrityError, packed_cs\<lparr>next_prn := 1212\<rparr>)"
proof -
  have a: "assign_division packed_cs '' CS '' = Inr ''1''"
    by (simp add: assign_division_def dict_get_count strings_CS count_packed_cs_untrimmed
          DIVISIONS_def MAX_PER_DIVISION_def)
  have z: "''zoe'' \<notin> username ` set (students packed_cs)"
    using packed_cs_usernames by simp
  show ?thesis
    using z packed_cs_has_CS101
    by (simp add: register_student_def validate_nonempty_def lower_strip_zoe find_username_None
          get_next_prn_eq hash_password_def assign_division_next_prn a generate_class_roll_eq
          count_students_next_prn strings_CS count_packed_cs_untrimmed insert_student_def
          packed_cs_next_prn Let_def)
qed

section \<open>Email derivation\<close>

text \<open>
  C7. The email is a function of the four arguments alone (no store is read or written):
  the lower-cased first name, a dot, the lower-cased last name, a dot, the PRN, an at sign,
  the lower-cased branch and the institutional domain \<^verbatim>\<open>college.edu\<close>. For Ann Lee, PRN
  1007, branch CSE, it is \<^verbatim>\<open>ann.lee.1007@cse.college.edu\<close>.
\<close>

theorem generate_email_format:
  "generate_email fn ln p b =
     lower fn @ ''.'' @ lower ln @ ''.'' @ p @ ''@'' @ lower b @ ''.college.edu''
   \<and> generate_email ''Ann'' ''Lee'' ''1007'' ''CSE'' = ''ann.lee.1007@cse.college.edu''"
proof
  show "generate_email fn ln p b =
     lower fn @ ''.'' @ lower ln @ ''.'' @ p @ ''@'' @ lower b @ ''.college.edu''"
    by (simp add: generate_email_def COLLEGE_DOMAIN_def)
  show "generate_email ''Ann'' ''Lee'' ''1007'' ''CSE'' = ''ann.lee.1007@cse.college.edu''"
    by code_simp
qed

section \<open>Editing and deleting\<close>

text \<open>
  C8, as the code has it. For \<^verbatim>\<open>edit_student\<close> and \<^verbatim>\<open>delete_student\<close> alike: a PRN
  that matches no student raises \<^verbatim>\<open>ValueError("Student not found.")\<close>, the not-found
  error; for a student that exists, an editor branch that is given, is not the empty string
  and differs from the student's branch when both are upper-cased raises
  \<^verbatim>\<open>PermissionError\<close>, the authorization error. In both cases the store is returned as it
  was. An editor branch that is the empty string is not compared at all.
\<close>

theorem edit_delete_guards:
  "(find_student_by_prn s p = None \<longrightarrow>
      edit_student E p upd eb s = (Inl (ValueError ''Student not found.''), s)
      \<and> delete_student p eb s = (Inl (ValueError ''Student not found.''), s))
   \<and> (find_student_by_prn s p = Some r \<and> eb = Some e \<and> e \<noteq> [] \<and> upper (branch r) \<noteq> upper e \<longrightarrow>
      edit_student E p upd eb s
        = (Inl (PermissionError ''You can only edit students of your branch.''), s)
      \<and> delete_student p eb s
        = (Inl (PermissionError ''You can only delete students of your branch.''), s))"
  by (simp add: edit_student_def delete_student_def branch_mismatch_def)

theorem edit_delete_guards_witness:
  "edit_student stub_env ''9999'' [] (Some ''CS'') three_cs
      = (Inl (ValueError ''Student not found.''), three_cs)
   \<and> delete_student ''9999'' (Some ''CS'') three_cs
      = (Inl (ValueError ''Student not found.''), three_cs)
   \<and> edit_student stub_env ''1001'' [(''first_name'', PStr ''Zed'')] (Some ''ee'') three_cs
      = (Inl (PermissionError ''You can only edit students of your branch.''), three_cs)
   \<and> delete_student ''1001'' (Some ''ee'') three_cs
      = (Inl (PermissionError ''You can only delete students of your branch.''), three_cs)"
proof -
  have a: "find_student_by_prn three_cs ''9999'' = None" by code_simp
  have b: "upper (branch ann_row) \<noteq> upper ''ee''" by code_simp
  have c: "''ee'' \<noteq> []" by simp
  show ?thesis
    using edit_delete_guards [of three_cs "''9999''" stub_env "[]" "Some ''CS''" ann_row "''CS''"]
          edit_delete_guards [of three_cs "''1001''" stub_env "[(''first_name'', PStr ''Zed'')]"
             "Some ''ee''" ann_row "''ee''"]
          a b c three_cs_ann
    by simp
qed

text \<open>
  The claim as stated fails for an editor branch that is supplied as the empty string:
  it differs from the branch CS of student 1001, yet the deletion goes through and the
  edit changes the first name.
\<close>

theorem empty_editor_branch_counterexample:
  "find_student_by_prn three_cs ''1001'' = Some ann_row
   \<and> upper (branch ann_row) \<noteq> upper []
   \<and> fst (delete_student ''1001'' (Some []) three_cs) = Inr True
   \<and> find_student_by_prn (snd (delete_student ''1001'' (Some []) three_cs)) ''1001'' = None
   \<and> fst (edit_student stub_env ''1001'' [(''first_name'', PStr ''Zed'')] (Some []) three_cs)
       = Inr (Some (ann_row\<lparr>first_name := ''Zed''\<rparr>))"
  by code_simp



text \<open>
  C10. When the student exists, the permission test passes and no key of the updates is
  in the allow-list, \<open>applied\<close> is empty, \<^verbatim>\<open>update_student\<close> executes
  \<^verbatim>\<open>UPDATE students SET  WHERE prn = ?\<close> and the call ends in
  \<^verbatim>\<open>sqlite3.OperationalError\<close> instead of returning the unchanged record. The store
  is as before.
\<close>

theorem edit_student_empty_set:
  assumes "find_student_by_prn s p = Some r" and "\<not> branch_mismatch eb r"
    and "fst ` set upd \<inter> set allowed = {}"
  shows "edit_student E p upd eb s = (Inl OperationalError, s)"
proof -
  from assms(3) have "filter_allowed upd = []" by (rule filter_allowed_none)
  then show ?thesis
    using assms(1,2)
    by (simp add: edit_student_def reassign_branch_def encode_extra_def update_student_def
          execute_update_def)
qed

theorem edit_student_empty_set_witness:
  "edit_student stub_env ''1001'' [] (Some ''cs'') three_cs = (Inl OperationalError, three_cs)
   \<and> edit_student stub_env ''1001'' [(''prn'', PStr ''7''), (''division'', PStr ''2'')] None three_cs
       = (Inl OperationalError, three_cs)"
proof -
  have a: "\<not> branch_mismatch (Some ''cs'') ann_row" by code_simp
  have b: "\<not> branch_mismatch None ann_row" by code_simp
  have c: "fst ` set ([] :: (string \<times> pyval) list) \<inter> set allowed = {}" by simp
  have d: "fst ` set [(''prn'', PStr ''7''), (''division'', PStr ''2'')] \<inter> set allowed = {}"
    by (simp add: allowed_def)
  show ?thesis
    using edit_student_empty_set [OF three_cs_ann a c, of stub_env]
          edit_student_empty_set [OF three_cs_ann b d, of stub_env]
    by simp
qed

section \<open>The capacity of a division\<close>

text \<open>
  C3, as the code has it. Starting from the empty database, after any sequence of
  registrations, edits (branch transfers among them) and deletions, whether they succeed
  or fail, no branch and division holds more than 70 students, and the store satisfies
  \<open>store_inv\<close>. In such a store, when each of the three divisions of a branch holds 70
  students, every registration into that branch fails and leaves the table of students
  as it was. When the branch is passed without surrounding whitespace, as the menu passes
  it, and the username is not empty and not taken, the failure is the
  \<^verbatim>\<open>ValueError\<close> that says all divisions are full, the capacity error.
\<close>

theorem capacity_bound:
  "int (count_students (run E calls init_store) b d) \<le> MAX_PER_DIVISION
   \<and> store_inv (run E calls init_store)
   \<and> (store_inv s
        \<and> (\<forall>e \<in> set DIVISIONS. MAX_PER_DIVISION \<le> int (count_students s (upper (strip b')) e)) \<longrightarrow>
       isl (fst (register_student E uuid uname pw fn ln b' ex s))
       \<and> students (snd (register_student E uuid uname pw fn ln b' ex s)) = students s)
   \<and> (strip b' = b'
        \<and> (\<forall>e \<in> set DIVISIONS. MAX_PER_DIVISION \<le> int (count_students s (upper (strip b')) e))
        \<and> uname \<noteq> [] \<and> strip uname \<noteq> []
        \<and> lower (strip uname) \<notin> set (map username (students s)) \<longrightarrow>
       fst (register_student E uuid uname pw fn ln b' ex s)
         = Inl (ValueError ''All divisions for this branch are full (3x70 = 210 students).'')
       \<and> students (snd (register_student E uuid uname pw fn ln b' ex s)) = students s)"
proof (intro conjI impI)
  show inv: "store_inv (run E calls init_store)"
    by (rule store_inv_run) (rule store_inv_init)
  then have "count_students (run E calls init_store) b d \<le> 70"
    by (rule store_inv_count)
  then show "int (count_students (run E calls init_store) b d) \<le> MAX_PER_DIVISION"
    by (simp add: MAX_PER_DIVISION_def)
next
  assume h: "store_inv s
        \<and> (\<forall>e \<in> set DIVISIONS. MAX_PER_DIVISION \<le> int (count_students s (upper (strip b')) e))"
  then have i: "store_inv s"
    and f: "\<forall>e \<in> set DIVISIONS. 70 \<le> int (count_students s (upper (strip b')) e)"
    by (simp_all add: MAX_PER_DIVISION_def)
  from register_student_packed_fails [OF i f, of E uuid uname pw fn ln ex]
  show "isl (fst (register_student E uuid uname pw fn ln b' ex s))"
    and "students (snd (register_student E uuid uname pw fn ln b' ex s)) = students s"
    by simp_all
next
  assume h: "strip b' = b'
        \<and> (\<forall>e \<in> set DIVISIONS. MAX_PER_DIVISION \<le> int (count_students s (upper (strip b')) e))
        \<and> uname \<noteq> [] \<and> strip uname \<noteq> []
        \<and> lower (strip uname) \<notin> set (map username (students s))"
  then have sb: "strip b' = b'"
    by (rule conjunct1)
  from h have f0: "\<forall>e \<in> set DIVISIONS. MAX_PER_DIVISION \<le> int (count_students s (upper (strip b')) e)"
    by (elim conjE)
  have f: "\<forall>e \<in> set DIVISIONS. 70 \<le> int (count_students s (upper b') e)"
    using f0 [unfolded sb] by (simp add: MAX_PER_DIVISION_def)
  from h have u: "uname \<noteq> []" "strip uname \<noteq> []"
    "lower (strip uname) \<notin> set (map username (students s))"
    by simp_all
  from register_student_full [OF f u, of E uuid pw fn ln ex]
  show "fst (register_student E uuid uname pw fn ln b' ex s)
         = Inl (ValueError ''All divisions for this branch are full (3x70 = 210 students).'')"
    and "students (snd (register_student E uuid uname pw fn ln b' ex s)) = students s"
    by simp_all
qed

theorem capacity_bound_witness:
  "int (count_students (run stub_env [reg ''ann'' ''CS'', reg ''bob'' ''CS'', reg ''cyd'' ''CS''] init_store)
          ''CS'' ''1'') \<le> MAX_PER_DIVISION
   \<and> isl (fst (register_student stub_env ''5f0c'' ''zoe'' ''pw'' ''Zoe'' ''Roe'' '' CS '' None packed_cs))
   \<and> students (snd (register_student stub_env ''5f0c'' ''zoe'' ''pw'' ''Zoe'' ''Roe'' '' CS '' None packed_cs))
         = students packed_cs
   \<and> fst (register_student stub_env ''5f0c'' ''zoe'' ''pw'' ''Zoe'' ''Roe'' ''CS'' None packed_cs)
         = Inl (ValueError ''All divisions for this branch are full (3x70 = 210 students).'')
   \<and> students (snd (register_student stub_env ''5f0c'' ''zoe'' ''pw'' ''Zoe'' ''Roe'' ''CS'' None packed_cs))
         = students packed_cs"
proof -
  have full: "\<forall>e \<in> set DIVISIONS. MAX_PER_DIVISION \<le> int (count_students packed_cs ''CS'' e)"
    by (simp add: DIVISIONS_def MAX_PER_DIVISION_def count_packed_cs)
  have a: "store_inv packed_cs
        \<and> (\<forall>e \<in> set DIVISIONS. MAX_PER_DIVISION \<le> int (count_students packed_cs (upper (strip '' CS '')) e))"
    using full store_inv_packed_cs by (simp only: strings_CS simp_thms)
  have z: "lower (strip ''zoe'') \<notin> set (map username (students packed_cs))"
    using packed_cs_usernames by (simp only: lower_strip_zoe(1) simp_thms)
  have b: "strip ''CS'' = ''CS''
        \<and> (\<forall>e \<in> set DIVISIONS. MAX_PER_DIVISION \<le> int (count_students packed_cs (upper (strip ''CS'')) e))
        \<and> ''zoe'' \<noteq> [] \<and> strip ''zoe'' \<noteq> []
        \<and> lower (strip ''zoe'') \<notin> set (map username (students packed_cs))"
    using full z lower_strip_zoe(2) by (simp add: strings_CS upper_CS)
  note t1 = capacity_bound [of stub_env "[reg ''ann'' ''CS'', reg ''bob'' ''CS'', reg ''cyd'' ''CS'']"
            "''CS''" "''1''" packed_cs "'' CS ''" "''5f0c''" "''zoe''" "''pw''" "''Zoe''" "''Roe''" None]
  note t2 = capacity_bound [of stub_env "[]" "''CS''" "''1''" packed_cs "''CS''"
            "''5f0c''" "''zoe''" "''pw''" "''Zoe''" "''Roe''" None]
  from t1 have c1: "int (count_students (run stub_env [reg ''ann'' ''CS'', reg ''bob'' ''CS'', reg ''cyd'' ''CS''] init_store)
          ''CS'' ''1'') \<le> MAX_PER_DIVISION"
    by (rule conjunct1)
  from t1 [THEN conjunct2, THEN conjunct2, THEN conjunct1, rule_format, OF a]
  have c2: "isl (fst (register_student stub_env ''5f0c'' ''zoe'' ''pw'' ''Zoe'' ''Roe'' '' CS '' None packed_cs))
   \<and> students (snd (register_student stub_env ''5f0c'' ''zoe'' ''pw'' ''Zoe'' ''Roe'' '' CS '' None packed_cs))
         = students packed_cs" .
  from t2 [THEN conjunct2, THEN conjunct2, THEN conjunct2, rule_format, OF b]
  have c3: "fst (register_student stub_env ''5f0c'' ''zoe'' ''pw'' ''Zoe'' ''Roe'' ''CS'' None packed_cs)
         = Inl (ValueError ''All divisions for this branch are full (3x70 = 210 students).'')
   \<and> students (snd (register_student stub_env ''5f0c'' ''zoe'' ''pw'' ''Zoe'' ''Roe'' ''CS'' None packed_cs))
         = students packed_cs" .
  from c1 c2 c3 show ?thesis by (intro conjI) (erule conjunct1 conjunct2 | assumption)+
qed

text \<open>
  The claim as stated names the capacity error for every registration into a packed
  branch. \<^verbatim>\<open>count_by_branch_division\<close> counts the rows of the upper-cased argument
  without trimming it, while the row is stored under the trimmed branch: a registration
  into the packed branch CS through the argument \<^verbatim>\<open>" CS "\<close> counts no rows, takes
  division 1 and roll CS101, and ends in \<^verbatim>\<open>sqlite3.IntegrityError\<close>, not in the
  capacity error.
\<close>

theorem untrimmed_branch_counterexample:
  "count_students packed_cs (upper (strip '' CS '')) ''1'' = 70
   \<and> count_students packed_cs (upper (strip '' CS '')) ''2'' = 70
   \<and> count_students packed_cs (upper (strip '' CS '')) ''3'' = 70
   \<and> store_inv packed_cs
   \<and> register_student stub_env ''5f0c'' ''zoe'' ''pw'' ''Zoe'' ''Roe'' '' CS '' None packed_cs
       = (Inl IntegrityError, packed_cs\<lparr>next_prn := 1212\<rparr>)"
  using store_inv_packed_cs register_untrimmed_packed
  by (simp only: strings_CS count_packed_cs simp_thms)

section \<open>The PRN counter\<close>



section \<open>The class roll after a deletion\<close>

text \<open>
  C1, as the code has it. The sequence number of a class roll is the number of students
  now in the division plus one. So in a database that grew from the empty one: when a
  student has just been registered into a branch (receiving, say, CS103 as the third of
  division 1), is deleted, and a new student with a fresh username is then registered into
  the same branch, the registration succeeds and the new student has the same division
  and the same class roll, CS103, again. The freed position that is used again is the
  last one of the division.
\<close>

theorem freed_last_roll_reused:
  assumes "register_student E uuid uname pw fn ln b ex (run E calls init_store) = (Inr st, s1)"
    and "delete_student (prn st) eb s1 = (Inr True, s2)"
    and "uname' \<noteq> []" and "strip uname' \<noteq> []"
    and "lower (strip uname') \<notin> set (map username (students s2))"
  shows "\<exists>st' s3. register_student E uuid' uname' pw' fn' ln' b ex' s2 = (Inr st', s3)
     \<and> class_roll st' = class_roll st \<and> division st' = division st
     \<and> class_roll st = branch_code b @ division st
          @ format_02d (int (count_students (run E calls init_store) (upper b) (division st)) + 1)"
proof -
  let ?s = "run E calls init_store"
  have inv: "store_inv ?s"
    by (rule store_inv_run) (rule store_inv_init)
  from register_student_Inr [OF assms(1)] obtain d where
    d: "assign_division ?s b = Inr d" and
    roll: "class_roll st = branch_code b @ d @ format_02d (int (count_students ?s (upper b) d) + 1)" and
    dv: "division st = d" and
    fresh: "prn st \<notin> set (map prn (students ?s))"
       "class_roll st \<notin> set (map class_roll (students ?s))" and
    s1: "s1 = \<lparr>students = students ?s @ [st\<lparr>extra := PStr (json_dumps E (extra st))\<rparr>],
             next_prn = next_prn ?s + 1\<rparr>"
    by auto
  have "prn r \<noteq> prn st" if "r \<in> set (students ?s)" for r
  proof
    assume "prn r = prn st"
    with that have "prn st \<in> set (map prn (students ?s))" by (metis image_eqI list.set_map)
    with fresh(1) show False by contradiction
  qed
  then have "filter (\<lambda>r. prn r \<noteq> prn st) (students ?s) = students ?s"
    by (simp add: filter_id_conv)
  with delete_student_Inr [OF assms(2)] have s2: "students s2 = students ?s"
    "next_prn s2 = next_prn ?s + 1"
    by (simp_all add: s1)
  have a: "assign_division s2 b = Inr d"
    using d by (simp add: assign_division_students [OF s2(1)])
  have c: "count_students s2 (upper b) d = count_students ?s (upper b) d"
    by (rule count_students_students [OF s2(1)])
  have p: "py_str (next_prn s2) \<notin> set (map prn (students s2))"
    using store_inv_prn_fresh [OF inv, of "next_prn ?s + 1"] by (simp add: s2)
  have r: "branch_code b @ d @ format_02d (int (count_students s2 (upper b) d) + 1)
       \<notin> set (map class_roll (students s2))"
    using fresh(2) by (simp add: c s2 roll)
  from register_student_succeeds [OF assms(3,4,5) a p r, of E uuid' pw' fn' ln' ex']
  show ?thesis
    by (auto simp: c roll dv)
qed

theorem freed_last_roll_reused_witness:
  "\<exists>st' s3. register_student stub_env ''77aa'' ''dan'' ''pw'' ''Dan'' ''Roe'' ''CS'' None
        \<lparr>students = [ann_row, bob_row], next_prn = 1004\<rparr> = (Inr st', s3)
     \<and> class_roll st' = ''CS103'' \<and> division st' = ''1''"
proof -
  have a: "register_student stub_env ''5f0c'' ''cyd'' ''pw'' ''Ann'' ''Lee'' ''CS'' None
        (run stub_env [reg ''ann'' ''CS'', reg ''bob'' ''CS''] init_store)
      = (Inr (cyd_row\<lparr>extra := PDict []\<rparr>), three_cs)"
    by code_simp
  have b: "delete_student (prn (cyd_row\<lparr>extra := PDict []\<rparr>)) None three_cs
      = (Inr True, \<lparr>students = [ann_row, bob_row], next_prn = 1004\<rparr>)"
    by code_simp
  have c: "''dan'' \<noteq> []" "strip ''dan'' \<noteq> []"
    "lower (strip ''dan'') \<notin> set (map username (students \<lparr>students = [ann_row, bob_row], next_prn = 1004\<rparr>))"
    by code_simp+
  from freed_last_roll_reused [OF a b c, of "''77aa''" "''pw''" "''Dan''" "''Roe''" None]
  show ?thesis
    by (simp add: cyd_row_def) blast
qed

text \<open>
  The claim as stated is about the middle roll. After CS101, CS102, CS103 and the
  deletion of CS102 two students remain, so the roll computed for the next registrant is
  CS103, not CS102; it is the roll of a student who is still there, the insert violates
  the uniqueness of \<open>class_roll\<close>, and the registration ends in
  \<^verbatim>\<open>sqlite3.IntegrityError\<close> with the counter advanced.
\<close>

theorem middle_roll_not_reused_counterexample:
  "map class_roll (students (run stub_env [reg ''ann'' ''CS'', reg ''bob'' ''CS'', reg ''cyd'' ''CS''] init_store))
      = [''CS101'', ''CS102'', ''CS103'']
   \<and> find_student_by_prn three_cs ''1002'' = Some bob_row
   \<and> delete_student ''1002'' None three_cs
        = (Inr True, \<lparr>students = [ann_row, cyd_row], next_prn = 1004\<rparr>)
   \<and> generate_class_roll \<lparr>students = [ann_row, cyd_row], next_prn = 1005\<rparr> ''CS'' ''1''
        = Inr ''CS103''
   \<and> register_student stub_env ''77aa'' ''dan'' ''pw'' ''Dan'' ''Roe'' ''CS'' None
        \<lparr>students = [ann_row, cyd_row], next_prn = 1004\<rparr>
        = (Inl IntegrityError, \<lparr>students = [ann_row, cyd_row], next_prn = 1005\<rparr>)"
  by code_simp

section \<open>Registrations that fail\<close>

text \<open>
  C2, as the code has it. A call of \<^verbatim>\<open>register_student\<close> that fails never changes the
  table of students, so the occupancy of every division, the division the next registrant
  would get and the next class roll are as before the call. When it fails on the username
  (empty, or already taken) the whole store is unchanged, the PRN counter included. When
  it fails later (all divisions full, or the insert rejected) the PRN has already been
  issued and committed by \<^verbatim>\<open>get_next_prn\<close>: the counter is one higher than before.
\<close>

theorem register_student_failure:
  assumes "register_student E uuid uname pw fn ln b ex s = (Inl e, s')"
  shows "students s' = students s
     \<and> (\<forall>b' d'. count_students s' b' d' = count_students s b' d'
            \<and> assign_division s' b' = assign_division s b'
            \<and> generate_class_roll s' b' d' = generate_class_roll s b' d')
     \<and> (((e = ValueError ''username cannot be empty.''
           \<or> e = ValueError ''Username already exists for a student.'') \<and> s' = s)
         \<or> ((e = ValueError ''All divisions for this branch are full (3x70 = 210 students).''
              \<or> e = IntegrityError) \<and> next_prn s' = next_prn s + 1))"
proof -
  note inl = register_student_Inl [OF assms]
  have st: "students s' = students s"
    by (rule conjunct1 [OF inl])
  note cases = conjunct2 [OF inl]
  have frame: "\<forall>b' d'. count_students s' b' d' = count_students s b' d'
            \<and> assign_division s' b' = assign_division s b'
            \<and> generate_class_roll s' b' d' = generate_class_roll s b' d'"
    by (simp add: count_students_students [OF st] assign_division_students [OF st]
          generate_class_roll_students [OF st])
  show ?thesis
  proof (intro conjI)
    show "students s' = students s" by (rule st)
    show "\<forall>b' d'. count_students s' b' d' = count_students s b' d'
            \<and> assign_division s' b' = assign_division s b'
            \<and> generate_class_roll s' b' d' = generate_class_roll s b' d'"
      by (rule frame)
    from cases show "((e = ValueError ''username cannot be empty.''
           \<or> e = ValueError ''Username already exists for a student.'') \<and> s' = s)
         \<or> ((e = ValueError ''All divisions for this branch are full (3x70 = 210 students).''
              \<or> e = IntegrityError) \<and> next_prn s' = next_prn s + 1)"
      by (elim disjE conjE) simp_all
  qed
qed

theorem register_student_failure_witness:
  "snd (register_student stub_env ''77aa'' ''ANN '' ''pw'' ''Ann'' ''Roe'' ''CS'' None three_cs) = three_cs
   \<and> students (snd (register_student stub_env ''77aa'' ''dan'' ''pw'' ''Dan'' ''Roe'' ''CSE'' None three_cs))
       = students three_cs
   \<and> next_prn (snd (register_student stub_env ''77aa'' ''dan'' ''pw'' ''Dan'' ''Roe'' ''CSE'' None three_cs))
       = next_prn three_cs + 1"
proof -
  have a: "register_student stub_env ''77aa'' ''ANN '' ''pw'' ''Ann'' ''Roe'' ''CS'' None three_cs
      = (Inl (ValueError ''Username already exists for a student.''), three_cs)"
    by code_simp
  have b: "register_student stub_env ''77aa'' ''dan'' ''pw'' ''Dan'' ''Roe'' ''CSE'' None three_cs
      = (Inl IntegrityError, \<lparr>students = [ann_row, bob_row, cyd_row], next_prn = 1005\<rparr>)"
    by code_simp
  from register_student_failure [OF a] register_student_failure [OF b] show ?thesis
    by (simp add: a b)
qed

text \<open>
  The claim as stated fails in the two later cases: a registration into the packed branch
  CS raises the capacity error and moves the counter from 1211 to 1212, and a
  registration whose insert is rejected moves it from 1004 to 1005.
\<close>

theorem failed_registration_consumes_prn_counterexample:
  "next_prn packed_cs = 1211
   \<and> register_student stub_env ''5f0c'' ''zoe'' ''pw'' ''Zoe'' ''Roe'' ''CS'' None packed_cs
       = (Inl (ValueError ''All divisions for this branch are full (3x70 = 210 students).''),
          packed_cs\<lparr>next_prn := 1212\<rparr>)
   \<and> next_prn three_cs = 1004
   \<and> register_student stub_env ''77aa'' ''dan'' ''pw'' ''Dan'' ''Roe'' ''CSE'' None three_cs
       = (Inl IntegrityError, three_cs\<lparr>next_prn := 1005\<rparr>)"
proof -
  have n: "next_prn packed_cs = 1211" by (simp add: packed_cs_def)
  have h: "\<forall>e \<in> set DIVISIONS. 70 \<le> int (count_students packed_cs (upper ''CS'') e)"
    by (simp add: DIVISIONS_def upper_CS count_packed_cs)
  have u: "''zoe'' \<noteq> []" by simp
  have l: "lower (strip ''zoe'') \<notin> set (map username (students packed_cs))"
    using packed_cs_usernames by (simp add: lower_strip_zoe)
  have a: "register_student stub_env ''5f0c'' ''zoe'' ''pw'' ''Zoe'' ''Roe'' ''CS'' None packed_cs
       = (Inl (ValueError ''All divisions for this branch are full (3x70 = 210 students).''),
          packed_cs\<lparr>next_prn := 1212\<rparr>)"
    using register_student_full [OF h u lower_strip_zoe(2) l, of stub_env "''5f0c''" "''pw''" "''Zoe''" "''Roe''" None]
    by (simp add: n)
  have b: "next_prn three_cs = 1004
   \<and> register_student stub_env ''77aa'' ''dan'' ''pw'' ''Dan'' ''Roe'' ''CSE'' None three_cs
       = (Inl IntegrityError, three_cs\<lparr>next_prn := 1005\<rparr>)"
    by code_simp
  from n a b show ?thesis by simp
qed

section \<open>Validation of the text fields\<close>

text \<open>
  C5, as the code has it. \<^verbatim>\<open>register_student\<close> validates the username only: when the
  username is empty or blank after trimming, it raises the \<^verbatim>\<open>ValueError\<close> that names
  \<open>username\<close>, and the store (table and counter) is unchanged. The other four fields
  are validated by the registration flow of the menu before it calls
  \<^verbatim>\<open>register_student\<close>: of username, password, first name, last name and branch, in
  this order, the first that is empty or blank after trimming is named in the
  \<^verbatim>\<open>ValueError\<close>, and the store is unchanged; when none is, the flow registers the
  trimmed values.
\<close>

theorem register_validation:
  "(strip uname = [] \<longrightarrow>
      register_student E uuid uname pw fn ln b ex s
        = (Inl (ValueError ''username cannot be empty.''), s))
   \<and> (strip iu = [] \<longrightarrow>
      student_register_flow E uuid iu ip ifn iln ib s
        = (Inl (ValueError ''username cannot be empty.''), s))
   \<and> (strip iu \<noteq> [] \<and> strip ip = [] \<longrightarrow>
      student_register_flow E uuid iu ip ifn iln ib s
        = (Inl (ValueError ''password cannot be empty.''), s))
   \<and> (strip iu \<noteq> [] \<and> strip ip \<noteq> [] \<and> strip ifn = [] \<longrightarrow>
      student_register_flow E uuid iu ip ifn iln ib s
        = (Inl (ValueError ''first name cannot be empty.''), s))
   \<and> (strip iu \<noteq> [] \<and> strip ip \<noteq> [] \<and> strip ifn \<noteq> [] \<and> strip iln = [] \<longrightarrow>
      student_register_flow E uuid iu ip ifn iln ib s
        = (Inl (ValueError ''last name cannot be empty.''), s))
   \<and> (strip iu \<noteq> [] \<and> strip ip \<noteq> [] \<and> strip ifn \<noteq> [] \<and> strip iln \<noteq> [] \<and> strip ib = [] \<longrightarrow>
      student_register_flow E uuid iu ip ifn iln ib s
        = (Inl (ValueError ''branch cannot be empty.''), s))
   \<and> (strip iu \<noteq> [] \<and> strip ip \<noteq> [] \<and> strip ifn \<noteq> [] \<and> strip iln \<noteq> [] \<and> strip ib \<noteq> [] \<longrightarrow>
      student_register_flow E uuid iu ip ifn iln ib s
        = register_student E uuid (strip iu) (strip ip) (strip ifn) (strip iln) (strip ib) None s)"
  by (simp add: register_student_def student_register_flow_def validate_nonempty_eq)

theorem register_validation_witness:
  "register_student stub_env ''77aa'' ''  '' ''pw'' ''Eve'' ''Roe'' ''CS'' None three_cs
      = (Inl (ValueError ''username cannot be empty.''), three_cs)
   \<and> student_register_flow stub_env ''77aa'' ''eve'' ''pw'' ''  '' ''Roe'' ''CS'' three_cs
      = (Inl (ValueError ''first name cannot be empty.''), three_cs)
   \<and> student_register_flow stub_env ''77aa'' ''eve'' ''pw'' ''Eve'' ''Roe'' [] three_cs
      = (Inl (ValueError ''branch cannot be empty.''), three_cs)"
proof -
  have e: "strip ''  '' = []" "strip [] = []" by code_simp+
  have n: "strip ''eve'' \<noteq> []" "strip ''pw'' \<noteq> []" "strip ''Eve'' \<noteq> []" "strip ''Roe'' \<noteq> []"
    by code_simp+
  show ?thesis
    using register_validation [of "''  ''" stub_env "''77aa''" "''pw''" "''Eve''" "''Roe''" "''CS''"
            None three_cs "''eve''" "''pw''" "''  ''" "''Roe''" "''CS''"]
          register_validation [of "''  ''" stub_env "''77aa''" "''pw''" "''Eve''" "''Roe''" "''CS''"
            None three_cs "''eve''" "''pw''" "''Eve''" "''Roe''" "[]"]
          e n
    by simp
qed

text \<open>
  The claim as stated fails for a direct call: with an empty password, an empty first
  name, a blank last name and an empty branch, \<^verbatim>\<open>register_student\<close> succeeds and
  stores the row.
\<close>

theorem unvalidated_fields_counterexample:
  "\<not> isl (fst (register_student stub_env ''77aa'' ''eve'' [] [] ''  '' [] None init_store))
   \<and> map first_name (students (snd (register_student stub_env ''77aa'' ''eve'' [] [] ''  '' [] None init_store))) = [[]]
   \<and> map last_name (students (snd (register_student stub_env ''77aa'' ''eve'' [] [] ''  '' [] None init_store))) = [[]]
   \<and> map branch (students (snd (register_student stub_env ''77aa'' ''eve'' [] [] ''  '' [] None init_store))) = [[]]"
  by code_simp

end
